theory Spec2Isabelle
  imports Main
begin

section \<open>Symbol classifier and cost model\<close>

text \<open>
  The engines of \<^verbatim>\<open>Needleman-Wunsch-recmemo.c\<close> call the symbol classifier
  (\<^verbatim>\<open>isBase\<close>, \<^verbatim>\<open>isUnknownBase\<close>, \<^verbatim>\<open>isSameBase\<close> of
  \<^verbatim>\<open>characters_to_base.h\<close>) and read the three cost constants of
  \<^verbatim>\<open>Needleman-Wunsch-recmemo.h\<close>. Neither header is among the sources, so
  the classifier and the costs are the fields of a parameter record that every
  engine receives. Values of C type \<^verbatim>\<open>long\<close> are integers, lengths of
  type \<^verbatim>\<open>size_t\<close> are natural numbers, loop counters of type
  \<^verbatim>\<open>int\<close> and \<^verbatim>\<open>long\<close> are integers; the lengths are taken to
  fit the counters and the sums of costs to fit a \<^verbatim>\<open>long\<close>.
\<close>

record params =
  isBase :: "char \<Rightarrow> bool"
  isUnknownBase :: "char \<Rightarrow> bool"
  isSameBase :: "char \<Rightarrow> char \<Rightarrow> bool"
  SUBSTITUTION_COST :: int
  SUBSTITUTION_UNKNOWN_COST :: int
  INSERTION_COST :: int

text \<open>
  The charge of the diagonal option, the expression every engine repeats:
  \<^verbatim>\<open>isUnknownBase(Xi) ? SUBSTITUTION_UNKNOWN_COST : (isSameBase(Xi, Yj) ? 0 : SUBSTITUTION_COST)\<close>.
\<close>

definition subst_cost :: "params \<Rightarrow> char \<Rightarrow> char \<Rightarrow> int" where
  "subst_cost e Xi Yj =
     (if isUnknownBase e Xi then SUBSTITUTION_UNKNOWN_COST e
      else (if isSameBase e Xi Yj then 0 else SUBSTITUTION_COST e))"

text \<open>
  Modelled from the spec: \<^verbatim>\<open>ManageBaseError\<close>, the anomaly hook of the missing
  header. It reports the symbol for diagnostics and returns; it touches none of
  the variables of an engine, so it is the identity on the state of the model.
\<close>

definition ManageBaseError :: "char \<Rightarrow> 's \<Rightarrow> 's" where
  "ManageBaseError ch s = s"

section \<open>Orientation context\<close>

text \<open>
  \<^verbatim>\<open>struct NW_MemoContext\<close> without its \<^verbatim>\<open>memo\<close> pointer: the table
  behind that pointer is the state that the memoized recursion threads through
  its calls. A sequence \<^verbatim>\<open>char *\<close> is a string, read by position.
\<close>

record NW_MemoContext =
  X :: string
  Y :: string
  M :: nat
  N :: nat

text \<open>The first statement of each of the four engines.\<close>

definition orientation :: "string \<Rightarrow> nat \<Rightarrow> string \<Rightarrow> nat \<Rightarrow> NW_MemoContext" where
  "orientation A lengthA B lengthB =
     (if lengthA \<ge> lengthB
      then \<lparr>X = A, Y = B, M = lengthA, N = lengthB\<rparr>
      else \<lparr>X = B, Y = A, M = lengthB, N = lengthA\<rparr>)"

section \<open>The reference recurrence\<close>

text \<open>
  The recurrence of the specification, written from its words, over a context
  and a charge \<open>d\<close> for the diagonal option. Positions range over \<open>0..M\<close> and
  \<open>0..N\<close>, so the tests \<open>M c \<le> i\<close> and \<open>N c \<le> j\<close> are the spec's \<open>i = M\<close>
  and \<open>j = N\<close>.
\<close>

function phi :: "params \<Rightarrow> (char \<Rightarrow> char \<Rightarrow> int) \<Rightarrow> NW_MemoContext \<Rightarrow> nat \<Rightarrow> nat \<Rightarrow> int" where
  "phi e d c i j =
     (if M c \<le> i then
        (if N c \<le> j then 0
         else (if isBase e (Y c ! j) then INSERTION_COST e else 0) + phi e d c i (j + 1))
      else if N c \<le> j then
        (if isBase e (X c ! i) then INSERTION_COST e else 0) + phi e d c (i + 1) j
      else if \<not> isBase e (X c ! i) then phi e d c (i + 1) j
      else if \<not> isBase e (Y c ! j) then phi e d c i (j + 1)
      else min (d (X c ! i) (Y c ! j) + phi e d c (i + 1) (j + 1))
               (min (INSERTION_COST e + phi e d c (i + 1) j)
                    (INSERTION_COST e + phi e d c i (j + 1))))"
  by pat_completeness auto
termination
  by (relation "measure (\<lambda>(e, d, c, i, j). (M c - i) + (N c - j))") auto

declare phi.simps [simp del]

section \<open>Top-down memoized engine\<close>

definition NOT_YET_COMPUTED :: int where
  "NOT_YET_COMPUTED = - 1"

text \<open>
  \<^verbatim>\<open>EditDistance_NW_RecMemo\<close>. The table \<^verbatim>\<open>memo[0..M][0..N]\<close> is a list of
  rows; the function returns the value together with the table it leaves. A
  call outside the table would read beyond the allocated rows: the model
  returns \<open>None\<close> there, which also bounds the recursion.
\<close>

function EditDistance_NW_RecMemo ::
  "params \<Rightarrow> NW_MemoContext \<Rightarrow> int list list \<Rightarrow> nat \<Rightarrow> nat \<Rightarrow> (int \<times> int list list) option" where
  "EditDistance_NW_RecMemo e c memo i j =
     (if M c < i \<or> N c < j then None
      else if memo ! i ! j = NOT_YET_COMPUTED then
        (case
           (if i = M c then
              (if j = N c then Some (0, memo)
               else
                 (case EditDistance_NW_RecMemo e c memo i (j + 1) of
                    None \<Rightarrow> None
                  | Some (r, memo1) \<Rightarrow>
                      Some ((if isBase e (Y c ! j) then INSERTION_COST e else 0) + r, memo1)))
            else if j = N c then
              (case EditDistance_NW_RecMemo e c memo (i + 1) j of
                 None \<Rightarrow> None
               | Some (r, memo1) \<Rightarrow>
                   Some ((if isBase e (X c ! i) then INSERTION_COST e else 0) + r, memo1))
            else if \<not> isBase e (X c ! i) then
              ManageBaseError (X c ! i) (EditDistance_NW_RecMemo e c memo (i + 1) j)
            else if \<not> isBase e (Y c ! j) then
              ManageBaseError (Y c ! j) (EditDistance_NW_RecMemo e c memo i (j + 1))
            else
              (case EditDistance_NW_RecMemo e c memo (i + 1) (j + 1) of
                 None \<Rightarrow> None
               | Some (r1, memo1) \<Rightarrow>
                   (case EditDistance_NW_RecMemo e c memo1 (i + 1) j of
                      None \<Rightarrow> None
                    | Some (r2, memo2) \<Rightarrow>
                        (case EditDistance_NW_RecMemo e c memo2 i (j + 1) of
                           None \<Rightarrow> None
                         | Some (r3, memo3) \<Rightarrow>
                             (let min0 = subst_cost e (X c ! i) (Y c ! j) + r1;
                                  cas2 = INSERTION_COST e + r2;
                                  min1 = (if cas2 < min0 then cas2 else min0);
                                  cas3 = INSERTION_COST e + r3;
                                  min2 = (if cas3 < min1 then cas3 else min1)
                              in Some (min2, memo3))))))
         of
           None \<Rightarrow> None
         | Some (res, memo4) \<Rightarrow>
             (let memo5 = memo4[i := (memo4 ! i)[j := res]]
              in Some (memo5 ! i ! j, memo5)))
      else Some (memo ! i ! j, memo))"
  by pat_completeness auto
termination
  by (relation "measure (\<lambda>(e, c, memo, i, j). (M c + 1 - i) + (N c + 1 - j))") auto

declare EditDistance_NW_RecMemo.simps [simp del]

text \<open>
  \<^verbatim>\<open>EditDistance_NW_Rec\<close>: orientation, a table of \<open>M + 1\<close> rows of \<open>N + 1\<close>
  cells all set to the sentinel, and the call at \<open>(0, 0)\<close>.
\<close>

definition EditDistance_NW_Rec :: "params \<Rightarrow> string \<Rightarrow> nat \<Rightarrow> string \<Rightarrow> nat \<Rightarrow> int option" where
  "EditDistance_NW_Rec e A lengthA B lengthB =
     (let ctx = orientation A lengthA B lengthB;
          memo = replicate (M ctx + 1) (replicate (N ctx + 1) NOT_YET_COMPUTED)
      in map_option fst (EditDistance_NW_RecMemo e ctx memo 0 0))"

section \<open>Loops, buffers and the three-way minimum\<close>

text \<open>
  A descending C loop \<^verbatim>\<open>for (i = hi; i >= lo; i--) body\<close> over a state: the
  call \<open>for_down hi lo body s\<close> runs the body at \<open>hi\<close>, \<open>hi - 1\<close>, ..., \<open>lo\<close>.
\<close>

function for_down :: "int \<Rightarrow> int \<Rightarrow> (int \<Rightarrow> 's \<Rightarrow> 's) \<Rightarrow> 's \<Rightarrow> 's" where
  "for_down i lo body s = (if lo \<le> i then for_down (i - 1) lo body (body i s) else s)"
  by pat_completeness auto
termination
  by (relation "measure (\<lambda>(i, lo, body, s). nat (i - lo + 1))") auto

declare for_down.simps [simp del]

text \<open>
  A buffer obtained from \<^verbatim>\<open>malloc\<close> that succeeded. Its contents are
  indeterminate in C; the model fills it with zeros, and so it does with the
  local variables that are declared without a value.
\<close>

definition malloc :: "nat \<Rightarrow> int list" where
  "malloc n = replicate n 0"

text \<open>The function \<^verbatim>\<open>min\<close> of three arguments of the source.\<close>

definition min3 :: "int \<Rightarrow> int \<Rightarrow> int \<Rightarrow> int" where
  "min3 a b c = (if a \<le> b \<and> a \<le> c then a else if b \<le> a \<and> b \<le> c then b else c)"

text \<open>
  The initialisation of a boundary buffer, the same statements in the three
  iterative engines: \<^verbatim>\<open>buf[n] = 0\<close>, then for \<open>row\<close> from \<open>n - 1\<close> down to \<open>0\<close>,
  \<^verbatim>\<open>buf[row] = (isBase(seq[row]) ? INSERTION_COST : 0) + buf[row + 1]\<close>.
\<close>

definition init_boundary :: "params \<Rightarrow> string \<Rightarrow> nat \<Rightarrow> int list \<Rightarrow> int list" where
  "init_boundary e seq n buf =
     for_down (int n - 1) 0
       (\<lambda>row buf. buf[nat row := (if isBase e (seq ! nat row) then INSERTION_COST e else 0)
                                    + buf ! nat (row + 1)])
       (buf[n := 0])"

section \<open>Iterative linear-space engine\<close>

text \<open>
  The body of the inner loop of \<^verbatim>\<open>EditDistance_NW_Iter\<close> at column \<open>col\<close> and
  row \<open>row\<close>, on the pair of \<^verbatim>\<open>Y_col\<close> and \<^verbatim>\<open>prev_value\<close>.
\<close>

definition Iter_cell ::
  "params \<Rightarrow> NW_MemoContext \<Rightarrow> int \<Rightarrow> int \<Rightarrow> int list \<times> int \<Rightarrow> int list \<times> int" where
  "Iter_cell e ctx col row = (\<lambda>(Y_col, prev_value).
     if row = int (N ctx) then
       (Y_col[nat row := (if isBase e (X ctx ! nat col) then INSERTION_COST e else 0)
                          + Y_col ! nat row],
        Y_col ! nat row)
     else if \<not> isBase e (X ctx ! nat col) then
       ManageBaseError (X ctx ! nat col) (Y_col, Y_col ! nat row)
     else if \<not> isBase e (Y ctx ! nat row) then
       ManageBaseError (Y ctx ! nat row)
         (Y_col[nat row := Y_col ! nat (row + 1)], Y_col ! nat row)
     else
       (let diag = subst_cost e (X ctx ! nat col) (Y ctx ! nat row) + prev_value;
            top = INSERTION_COST e + Y_col ! nat (row + 1);
            right = INSERTION_COST e + Y_col ! nat row
        in (Y_col[nat row := min3 diag right top], Y_col ! nat row)))"

definition EditDistance_NW_Iter :: "params \<Rightarrow> string \<Rightarrow> nat \<Rightarrow> string \<Rightarrow> nat \<Rightarrow> int" where
  "EditDistance_NW_Iter e A lengthA B lengthB =
     (let ctx = orientation A lengthA B lengthB;
          Y_col = init_boundary e (Y ctx) (N ctx) (malloc (N ctx + 1));
          (Y_col, prev_value) =
             for_down (int (M ctx) - 1) 0
               (\<lambda>col. for_down (int (N ctx)) 0 (\<lambda>row. Iter_cell e ctx col row))
               (Y_col, 0)
      in Y_col ! 0)"

section \<open>Cache-aware blocked engine\<close>

text \<open>
  The state of the scan of \<^verbatim>\<open>EditDistance_NW_Iter_CA\<close> is the tuple of
  \<^verbatim>\<open>Y_col\<close>, \<^verbatim>\<open>Z_row\<close>, \<^verbatim>\<open>prev_value\<close>, \<^verbatim>\<open>prev_z\<close> and
  \<^verbatim>\<open>value_to_keep\<close>. The body of the innermost loop:
\<close>

definition CA_cell ::
  "params \<Rightarrow> NW_MemoContext \<Rightarrow> int \<Rightarrow> int \<Rightarrow> int \<Rightarrow> int \<Rightarrow> int \<Rightarrow> int \<Rightarrow> int \<Rightarrow> int \<Rightarrow> int \<Rightarrow>
   int list \<times> int list \<times> int \<times> int \<times> int \<Rightarrow> int list \<times> int list \<times> int \<times> int \<times> int" where
  "CA_cell e ctx number_of_Z_rows Z_row_length z_row max_cols max_rows counter_col col counter_row row =
     (\<lambda>(Y_col, Z_row, prev_value, prev_z, value_to_keep).
        let (Y_col, prev_value) =
          (if row = int (N ctx) then
             (Y_col[nat row := (if isBase e (X ctx ! nat col) then INSERTION_COST e else 0)
                                + Y_col ! nat row],
              Y_col ! nat row)
           else if \<not> isBase e (X ctx ! nat col) then
             ManageBaseError (X ctx ! nat col) (Y_col, Y_col ! nat row)
           else if \<not> isBase e (Y ctx ! nat row) then
             ManageBaseError (Y ctx ! nat row)
               (if counter_row = max_rows
                then Y_col[nat row := Z_row ! nat (counter_col + Z_row_length - max_cols)]
                else Y_col[nat row := Y_col ! nat (row + 1)],
                Y_col ! nat row)
           else if z_row = number_of_Z_rows - 1 \<or> counter_row \<noteq> max_rows then
             (let diag = subst_cost e (X ctx ! nat col) (Y ctx ! nat row) + prev_value;
                  top = INSERTION_COST e + Y_col ! nat (row + 1);
                  right = INSERTION_COST e + Y_col ! nat row
              in (Y_col[nat row := min3 diag right top], Y_col ! nat row))
           else
             (let diag =
                    (if counter_col = max_cols - 1
                     then subst_cost e (X ctx ! nat col) (Y ctx ! nat row)
                          + Z_row ! nat (counter_col + Z_row_length - max_cols + 1)
                     else subst_cost e (X ctx ! nat col) (Y ctx ! nat row) + prev_z);
                  top = INSERTION_COST e + Z_row ! nat (counter_col + Z_row_length - max_cols);
                  right = INSERTION_COST e + Y_col ! nat row
              in (Y_col[nat row := min3 diag right top], Y_col ! nat row)))
        in (Y_col, Z_row, prev_value, prev_z, Y_col ! nat row))"

text \<open>One iteration of the loop over \<^verbatim>\<open>counter_col\<close>: a column of a tile.\<close>

definition CA_column ::
  "params \<Rightarrow> NW_MemoContext \<Rightarrow> int \<Rightarrow> int \<Rightarrow> int \<Rightarrow> int \<Rightarrow> int \<Rightarrow> int \<Rightarrow> int \<Rightarrow> int \<Rightarrow> int \<Rightarrow>
   int list \<times> int list \<times> int \<times> int \<times> int \<Rightarrow> int list \<times> int list \<times> int \<times> int \<times> int" where
  "CA_column e ctx Z number_of_Z_rows number_of_Z_cols Z_row_length z_col z_row max_cols max_rows
       counter_col s =
     (let col = (if z_col > 0
                 then counter_col + (z_col - 1) * Z + int (M ctx) - (number_of_Z_cols - 1) * Z
                 else counter_col);
          (Y_col, Z_row, prev_value, prev_z, value_to_keep) =
             for_down max_rows 0
               (\<lambda>counter_row.
                  let row = (if z_row > 0
                             then counter_row + (z_row - 1) * Z + int (N ctx)
                                  - (number_of_Z_rows - 1) * Z
                             else counter_row)
                  in CA_cell e ctx number_of_Z_rows Z_row_length z_row max_cols max_rows
                       counter_col col counter_row row)
               s;
          prev_z = Z_row ! nat (counter_col + Z_row_length - max_cols);
          Z_row = Z_row[nat (counter_col + Z_row_length - max_cols) := value_to_keep];
          Z_row = (if counter_col = max_cols - 1 then Z_row[nat Z_row_length := prev_value]
                   else Z_row)
      in (Y_col, Z_row, prev_value, prev_z, value_to_keep))"

text \<open>One iteration of the loop over \<^verbatim>\<open>z_row\<close>: a tile.\<close>

definition CA_tile ::
  "params \<Rightarrow> NW_MemoContext \<Rightarrow> int \<Rightarrow> int \<Rightarrow> int \<Rightarrow> int \<Rightarrow> int \<Rightarrow> int \<Rightarrow> int \<Rightarrow>
   int list \<times> int list \<times> int \<times> int \<times> int \<Rightarrow> int list \<times> int list \<times> int \<times> int \<times> int" where
  "CA_tile e ctx Z number_of_Z_rows number_of_Z_cols Z_row_length z_col max_cols z_row s =
     (let max_rows = (if int (N ctx) - (number_of_Z_rows - 1 - z_row) * Z > Z then Z
                      else int (N ctx) - (number_of_Z_rows - 1 - z_row) * Z);
          max_rows = (if z_row \<noteq> number_of_Z_rows - 1 then max_rows - 1 else max_rows)
      in for_down (max_cols - 1) 0
           (CA_column e ctx Z number_of_Z_rows number_of_Z_cols Z_row_length z_col z_row
              max_cols max_rows)
           s)"

text \<open>One iteration of the loop over \<^verbatim>\<open>z_col\<close>: a strip of tiles.\<close>

definition CA_strip ::
  "params \<Rightarrow> NW_MemoContext \<Rightarrow> int \<Rightarrow> int \<Rightarrow> int \<Rightarrow> int \<Rightarrow> int \<Rightarrow>
   int list \<times> int list \<times> int \<times> int \<times> int \<Rightarrow> int list \<times> int list \<times> int \<times> int \<times> int" where
  "CA_strip e ctx Z number_of_Z_rows number_of_Z_cols Z_row_length z_col s =
     (let max_cols = (if int (M ctx) - (number_of_Z_cols - 1 - z_col) * Z > Z then Z
                      else int (M ctx) - (number_of_Z_cols - 1 - z_col) * Z)
      in for_down (number_of_Z_rows - 1) 0
           (CA_tile e ctx Z number_of_Z_rows number_of_Z_cols Z_row_length z_col max_cols)
           s)"

text \<open>
  The engine from the declaration of \<^verbatim>\<open>Z\<close> on, with the tile edge as an
  argument, and the engine itself, where \<^verbatim>\<open>long Z = 100\<close>.
\<close>

definition CA_scan :: "params \<Rightarrow> NW_MemoContext \<Rightarrow> int \<Rightarrow> int list \<Rightarrow> int" where
  "CA_scan e ctx Z Y_col =
     (let number_of_Z_rows = int (N ctx) div Z + 1;
          number_of_Z_cols = int (M ctx) div Z + 1;
          Z_row_length = (if Z > int (M ctx) then int (M ctx) else Z);
          Z_row = malloc (nat (Z_row_length + 1));
          (Y_col, Z_row, prev_value, prev_z, value_to_keep) =
             for_down (number_of_Z_cols - 1) 0
               (CA_strip e ctx Z number_of_Z_rows number_of_Z_cols Z_row_length)
               (Y_col, Z_row, 0, 0, 0)
      in Y_col ! 0)"

definition EditDistance_NW_Iter_CA :: "params \<Rightarrow> string \<Rightarrow> nat \<Rightarrow> string \<Rightarrow> nat \<Rightarrow> int" where
  "EditDistance_NW_Iter_CA e A lengthA B lengthB =
     (let ctx = orientation A lengthA B lengthB;
          Y_col = init_boundary e (Y ctx) (N ctx) (malloc (N ctx + 1));
          Z = 100
      in CA_scan e ctx Z Y_col)"

section \<open>Cache-oblivious recursive engine\<close>

definition CO_BREAKPOINT :: int where
  "CO_BREAKPOINT = 10"

text \<open>
  The base case of \<^verbatim>\<open>CalculateBlock_CO\<close>: the body of its inner loop on the
  tuple of \<^verbatim>\<open>Y_col\<close>, \<^verbatim>\<open>Z_row\<close>, \<^verbatim>\<open>prev_value_y\<close>, \<^verbatim>\<open>prev_value_z\<close> and
  \<^verbatim>\<open>value_to_keep\<close>, one iteration of its outer loop, and the two loops.
\<close>

definition CO_cell ::
  "params \<Rightarrow> NW_MemoContext \<Rightarrow> int \<Rightarrow> int \<Rightarrow> int \<Rightarrow> int \<Rightarrow>
   int list \<times> int list \<times> int \<times> int \<times> int \<Rightarrow> int list \<times> int list \<times> int \<times> int \<times> int" where
  "CO_cell e ctx Z_end Y_end col row =
     (\<lambda>(Y_col, Z_row, prev_value_y, prev_value_z, value_to_keep).
        let (Y_col, prev_value_y) =
          (if row = int (N ctx) then
             (Y_col[nat row := (if isBase e (X ctx ! nat col) then INSERTION_COST e else 0)
                                + Y_col ! nat row],
              Y_col ! nat row)
           else if \<not> isBase e (X ctx ! nat col) then
             ManageBaseError (X ctx ! nat col) (Y_col, Y_col ! nat row)
           else if \<not> isBase e (Y ctx ! nat row) then
             ManageBaseError (Y ctx ! nat row)
               (if row = Y_end
                then Y_col[nat row := Z_row ! nat col]
                else Y_col[nat row := Y_col ! nat (row + 1)],
                Y_col ! nat row)
           else
             (let (diag, left, top) =
                (if row = Y_end then
                   ((if col = Z_end
                     then subst_cost e (X ctx ! nat col) (Y ctx ! nat row) + Z_row ! nat (col + 1)
                     else subst_cost e (X ctx ! nat col) (Y ctx ! nat row) + prev_value_z),
                    INSERTION_COST e + Y_col ! nat row,
                    INSERTION_COST e + Z_row ! nat col)
                 else
                   (subst_cost e (X ctx ! nat col) (Y ctx ! nat row) + prev_value_y,
                    INSERTION_COST e + Y_col ! nat row,
                    INSERTION_COST e + Y_col ! nat (row + 1)))
              in (Y_col[nat row := min3 diag left top], Y_col ! nat row)))
        in (Y_col, Z_row, prev_value_y, prev_value_z, Y_col ! nat row))"

definition CO_column ::
  "params \<Rightarrow> NW_MemoContext \<Rightarrow> int \<Rightarrow> int \<Rightarrow> int \<Rightarrow> int \<Rightarrow>
   int list \<times> int list \<times> int \<times> int \<times> int \<Rightarrow> int list \<times> int list \<times> int \<times> int \<times> int" where
  "CO_column e ctx Z_end Y_start Y_end col s =
     (let (Y_col, Z_row, prev_value_y, prev_value_z, value_to_keep) =
             for_down Y_end Y_start (\<lambda>row. CO_cell e ctx Z_end Y_end col row) s;
          prev_value_z = Z_row ! nat col;
          Z_row = Z_row[nat col := value_to_keep];
          Z_row = (if col = Z_end then Z_row[nat (Z_end + 1) := prev_value_y] else Z_row)
      in (Y_col, Z_row, prev_value_y, prev_value_z, value_to_keep))"

definition CO_base ::
  "params \<Rightarrow> NW_MemoContext \<Rightarrow> int \<Rightarrow> int \<Rightarrow> int \<Rightarrow> int \<Rightarrow>
   int list \<times> int list \<times> int \<times> int \<times> int \<Rightarrow> int list \<times> int list \<times> int \<times> int \<times> int" where
  "CO_base e ctx Z_start Z_end Y_start Y_end s =
     for_down Z_end Z_start (CO_column e ctx Z_end Y_start Y_end) s"

text \<open>
  \<^verbatim>\<open>CalculateBlock_CO\<close> returns the two buffers it was handed, as it leaves
  them. The differences it halves are positive, where C's division is \<open>div\<close>.
\<close>

function CalculateBlock_CO ::
  "params \<Rightarrow> NW_MemoContext \<Rightarrow> int list \<Rightarrow> int \<Rightarrow> int \<Rightarrow> int list \<Rightarrow> int \<Rightarrow> int \<Rightarrow>
   int list \<times> int list" where
  "CalculateBlock_CO e ctx Z_row Z_start Z_end Y_col Y_start Y_end =
     (if Z_end - Z_start > CO_BREAKPOINT then
        (let (Z_row, Y_col) =
               CalculateBlock_CO e ctx Z_row (Z_start + (Z_end - Z_start) div 2 + 1) Z_end
                 Y_col Y_start Y_end
         in CalculateBlock_CO e ctx Z_row Z_start (Z_start + (Z_end - Z_start) div 2)
              Y_col Y_start Y_end)
      else if Y_end - Y_start > CO_BREAKPOINT then
        (let (Z_row, Y_col) =
               CalculateBlock_CO e ctx Z_row Z_start Z_end
                 Y_col (Y_start + (Y_end - Y_start) div 2 + 1) Y_end
         in CalculateBlock_CO e ctx Z_row Z_start Z_end
              Y_col Y_start (Y_start + (Y_end - Y_start) div 2))
      else
        (let (Y_col, Z_row, prev_value_y, prev_value_z, value_to_keep) =
               CO_base e ctx Z_start Z_end Y_start Y_end (Y_col, Z_row, 0, 0, 0)
         in (Z_row, Y_col)))"
  by pat_completeness auto
termination
  by (relation "measure (\<lambda>(e, ctx, Z_row, Z_start, Z_end, Y_col, Y_start, Y_end).
                  nat (Z_end - Z_start) + nat (Y_end - Y_start))")
     (auto simp: CO_BREAKPOINT_def)

declare CalculateBlock_CO.simps [simp del]

definition EditDistance_NW_Iter_CO :: "params \<Rightarrow> string \<Rightarrow> nat \<Rightarrow> string \<Rightarrow> nat \<Rightarrow> int" where
  "EditDistance_NW_Iter_CO e A lengthA B lengthB =
     (let ctx = orientation A lengthA B lengthB;
          Y_col = init_boundary e (Y ctx) (N ctx) (malloc (N ctx + 1));
          Z_row = init_boundary e (X ctx) (M ctx) (malloc (M ctx + 1));
          (Z_row, Y_col) = CalculateBlock_CO e ctx Z_row 0 (int (M ctx) - 1) Y_col 0 (int (N ctx))
      in Y_col ! 0)"

text \<open>
  Modelled from the spec: a classifier and the cost constants, in place of the
  two headers that are not among the sources. The bases are the four
  nucleotides and the wildcard \<open>N\<close> in either case, the wildcard is the unknown
  base, two bases are the same when they agree up to case, and the costs are
  those of the spec's representative configuration (substitution 1, unknown
  substitution 2, insertion 2).
\<close>

definition upper :: "char \<Rightarrow> char" where
  "upper ch = (if ch = CHR ''a'' then CHR ''A'' else if ch = CHR ''c'' then CHR ''C''
               else if ch = CHR ''g'' then CHR ''G'' else if ch = CHR ''t'' then CHR ''T''
               else if ch = CHR ''n'' then CHR ''N'' else ch)"

definition dna :: params where
  "dna = \<lparr>isBase = (\<lambda>ch. upper ch \<in> set ''ACGTN''),
          isUnknownBase = (\<lambda>ch. upper ch = CHR ''N''),
          isSameBase = (\<lambda>a b. upper a = upper b),
          SUBSTITUTION_COST = 1,
          SUBSTITUTION_UNKNOWN_COST = 2,
          INSERTION_COST = 2\<rparr>"

section \<open>The memoized recursion with a history of its stores\<close>



section \<open>Allocation failures\<close>

text \<open>
  The way an engine ends: \<^verbatim>\<open>exit(EXIT_FAILURE)\<close> after \<^verbatim>\<open>perror\<close>, an
  access through a pointer that is \<^verbatim>\<open>NULL\<close> (or outside the memo table),
  which is undefined behaviour, or the return of a distance.
\<close>

datatype outcome = Exit_Failure | Null_Access | Return int

text \<open>
  The engines with the result of each \<^verbatim>\<open>malloc\<close> as an argument: \<open>True\<close>
  when it returned a buffer, \<open>False\<close> when it returned \<^verbatim>\<open>NULL\<close>.
  \<^verbatim>\<open>EditDistance_NW_Rec\<close> tests the table of rows and every row;
  \<^verbatim>\<open>EditDistance_NW_Iter\<close> tests \<^verbatim>\<open>Y_col\<close>.
\<close>

definition EditDistance_NW_Rec_alloc ::
  "params \<Rightarrow> bool \<Rightarrow> (nat \<Rightarrow> bool) \<Rightarrow> string \<Rightarrow> nat \<Rightarrow> string \<Rightarrow> nat \<Rightarrow> outcome" where
  "EditDistance_NW_Rec_alloc e memo_got row_got A lengthA B lengthB =
     (let ctx = orientation A lengthA B lengthB
      in if \<not> memo_got then Exit_Failure
         else if \<not> list_all row_got [0..<M ctx + 1] then Exit_Failure
         else (case EditDistance_NW_Rec e A lengthA B lengthB of
                 None \<Rightarrow> Null_Access
               | Some res \<Rightarrow> Return res))"

definition EditDistance_NW_Iter_alloc ::
  "params \<Rightarrow> bool \<Rightarrow> string \<Rightarrow> nat \<Rightarrow> string \<Rightarrow> nat \<Rightarrow> outcome" where
  "EditDistance_NW_Iter_alloc e Y_col_got A lengthA B lengthB =
     (if \<not> Y_col_got then Exit_Failure
      else Return (EditDistance_NW_Iter e A lengthA B lengthB))"

text \<open>
  \<^verbatim>\<open>EditDistance_NW_Iter_CA\<close> tests \<^verbatim>\<open>Y_col\<close> and does not test
  \<^verbatim>\<open>Z_row\<close>. Every iteration of its loop over \<^verbatim>\<open>counter_col\<close> reads and
  writes \<^verbatim>\<open>Z_row\<close> after its rows, and nothing else does before: the buffer
  is accessed when one such iteration runs, which the three outer loops decide.
\<close>

definition CA_accesses_Z_row :: "NW_MemoContext \<Rightarrow> int \<Rightarrow> bool" where
  "CA_accesses_Z_row ctx Z =
     (let number_of_Z_rows = int (N ctx) div Z + 1;
          number_of_Z_cols = int (M ctx) div Z + 1
      in for_down (number_of_Z_cols - 1) 0
           (\<lambda>z_col accessed.
              let max_cols = (if int (M ctx) - (number_of_Z_cols - 1 - z_col) * Z > Z then Z
                              else int (M ctx) - (number_of_Z_cols - 1 - z_col) * Z)
              in for_down (number_of_Z_rows - 1) 0
                   (\<lambda>z_row accessed. for_down (max_cols - 1) 0 (\<lambda>counter_col accessed. True) accessed)
                   accessed)
           False)"

definition EditDistance_NW_Iter_CA_alloc ::
  "params \<Rightarrow> bool \<Rightarrow> bool \<Rightarrow> string \<Rightarrow> nat \<Rightarrow> string \<Rightarrow> nat \<Rightarrow> outcome" where
  "EditDistance_NW_Iter_CA_alloc e Y_col_got Z_row_got A lengthA B lengthB =
     (let ctx = orientation A lengthA B lengthB;
          Z = 100
      in if \<not> Y_col_got then Exit_Failure
         else if \<not> Z_row_got \<and> CA_accesses_Z_row ctx Z then Null_Access
         else Return (EditDistance_NW_Iter_CA e A lengthA B lengthB))"

text \<open>
  \<^verbatim>\<open>EditDistance_NW_Iter_CO\<close> tests \<^verbatim>\<open>Y_col\<close>, does not test \<^verbatim>\<open>Z_row\<close>
  and writes \<^verbatim>\<open>Z_row[M] = 0\<close> as its next statement.
\<close>

definition EditDistance_NW_Iter_CO_alloc ::
  "params \<Rightarrow> bool \<Rightarrow> bool \<Rightarrow> string \<Rightarrow> nat \<Rightarrow> string \<Rightarrow> nat \<Rightarrow> outcome" where
  "EditDistance_NW_Iter_CO_alloc e Y_col_got Z_row_got A lengthA B lengthB =
     (if \<not> Y_col_got then Exit_Failure
      else if \<not> Z_row_got then Null_Access
      else Return (EditDistance_NW_Iter_CO e A lengthA B lengthB))"

section \<open>Notions used to state the claims\<close>

text \<open>The four engines return the value \<open>v\<close> on an input.\<close>

definition engines_return :: "params \<Rightarrow> string \<Rightarrow> nat \<Rightarrow> string \<Rightarrow> nat \<Rightarrow> int \<Rightarrow> bool" where
  "engines_return e A lengthA B lengthB v \<longleftrightarrow>
     EditDistance_NW_Rec e A lengthA B lengthB = Some v \<and>
     EditDistance_NW_Iter e A lengthA B lengthB = v \<and>
     EditDistance_NW_Iter_CA e A lengthA B lengthB = v \<and>
     EditDistance_NW_Iter_CO e A lengthA B lengthB = v"

text \<open>
  The symbols of a sequence from position \<open>i\<close> up to its length \<open>n\<close>, and the
  recurrence written over the two lists of remaining symbols; the lemma
  \<open>phi_ed\<close> below relates it to \<open>phi\<close>.
\<close>

definition seg :: "string \<Rightarrow> nat \<Rightarrow> nat \<Rightarrow> string" where
  "seg s i n = map ((!) s) [i..<n]"

fun ed :: "params \<Rightarrow> (char \<Rightarrow> char \<Rightarrow> int) \<Rightarrow> string \<Rightarrow> string \<Rightarrow> int" where
  "ed e d [] [] = 0"
| "ed e d [] (y # ys) = (if isBase e y then INSERTION_COST e else 0) + ed e d [] ys"
| "ed e d (x # xs) [] = (if isBase e x then INSERTION_COST e else 0) + ed e d xs []"
| "ed e d (x # xs) (y # ys) =
     (if \<not> isBase e x then ed e d xs (y # ys)
      else if \<not> isBase e y then ed e d (x # xs) ys
      else min (d x y + ed e d xs ys)
               (min (INSERTION_COST e + ed e d xs (y # ys))
                    (INSERTION_COST e + ed e d (x # xs) ys)))"



text \<open>
  The diagonal charge of the engines does not depend on the order of its two
  symbols, for the bases of two sequences.
\<close>

definition charge_symmetric :: "params \<Rightarrow> string \<Rightarrow> string \<Rightarrow> bool" where
  "charge_symmetric e xs ys \<longleftrightarrow>
     (\<forall>x\<in>set xs. \<forall>y\<in>set ys. isBase e x \<longrightarrow> isBase e y \<longrightarrow> subst_cost e x y = subst_cost e y x)"




section \<open>Auxiliary notions of the proofs\<close>

text \<open>
  The invariant of the memo table: it has \<open>M + 1\<close> rows of \<open>N + 1\<close> cells, and
  every cell holds the sentinel or the value of the recurrence at its position.
\<close>

definition memo_ok :: "params \<Rightarrow> NW_MemoContext \<Rightarrow> int list list \<Rightarrow> bool" where
  "memo_ok e c memo \<longleftrightarrow>
     length memo = M c + 1 \<and>
     (\<forall>i\<le>M c. length (memo ! i) = N c + 1 \<and>
        (\<forall>j\<le>N c. memo ! i ! j = NOT_YET_COMPUTED \<or> memo ! i ! j = phi e (subst_cost e) c i j))"

text \<open>The recurrence with the diagonal charge of the engines, at integer positions.\<close>

definition phiZ :: "params \<Rightarrow> NW_MemoContext \<Rightarrow> int \<Rightarrow> int \<Rightarrow> int" where
  "phiZ e c col row = phi e (subst_cost e) c (nat col) (nat row)"

text \<open>
  The scan of a block of columns up to \<open>ce\<close> and rows up to \<open>re\<close>, the common
  shape of a tile of the blocked engine and of the base case of the
  cache-oblivious engine: the boundary buffer is read and written at the
  column plus an offset \<open>zoff\<close>.
\<close>

definition blk_cell ::
  "params \<Rightarrow> NW_MemoContext \<Rightarrow> int \<Rightarrow> int \<Rightarrow> int \<Rightarrow> int \<Rightarrow> int \<Rightarrow>
   int list \<times> int list \<times> int \<times> int \<times> int \<Rightarrow> int list \<times> int list \<times> int \<times> int \<times> int" where
  "blk_cell e ctx zoff ce re col row =
     (\<lambda>(Y_col, Z_row, pv, pz, vk).
        let (Y_col, pv) =
          (if row = int (N ctx) then
             (Y_col[nat row := (if isBase e (X ctx ! nat col) then INSERTION_COST e else 0)
                                + Y_col ! nat row],
              Y_col ! nat row)
           else if \<not> isBase e (X ctx ! nat col) then (Y_col, Y_col ! nat row)
           else if \<not> isBase e (Y ctx ! nat row) then
             (if row = re
              then Y_col[nat row := Z_row ! nat (col + zoff)]
              else Y_col[nat row := Y_col ! nat (row + 1)],
              Y_col ! nat row)
           else if row \<noteq> re then
             (Y_col[nat row := min3 (subst_cost e (X ctx ! nat col) (Y ctx ! nat row) + pv)
                                    (INSERTION_COST e + Y_col ! nat row)
                                    (INSERTION_COST e + Y_col ! nat (row + 1))],
              Y_col ! nat row)
           else
             (Y_col[nat row := min3 (if col = ce
                                     then subst_cost e (X ctx ! nat col) (Y ctx ! nat row)
                                          + Z_row ! nat (col + zoff + 1)
                                     else subst_cost e (X ctx ! nat col) (Y ctx ! nat row) + pz)
                                    (INSERTION_COST e + Y_col ! nat row)
                                    (INSERTION_COST e + Z_row ! nat (col + zoff))],
              Y_col ! nat row))
        in (Y_col, Z_row, pv, pz, Y_col ! nat row))"

definition blk_column ::
  "params \<Rightarrow> NW_MemoContext \<Rightarrow> int \<Rightarrow> int \<Rightarrow> int \<Rightarrow> int \<Rightarrow> int \<Rightarrow>
   int list \<times> int list \<times> int \<times> int \<times> int \<Rightarrow> int list \<times> int list \<times> int \<times> int \<times> int" where
  "blk_column e ctx zoff ce rs re col s =
     (let (Y_col, Z_row, pv, pz, vk) = for_down re rs (blk_cell e ctx zoff ce re col) s;
          pz = Z_row ! nat (col + zoff);
          Z_row = Z_row[nat (col + zoff) := vk];
          Z_row = (if col = ce then Z_row[nat (ce + 1 + zoff) := pv] else Z_row)
      in (Y_col, Z_row, pv, pz, vk))"

definition blk ::
  "params \<Rightarrow> NW_MemoContext \<Rightarrow> int \<Rightarrow> int \<Rightarrow> int \<Rightarrow> int \<Rightarrow> int \<Rightarrow>
   int list \<times> int list \<times> int \<times> int \<times> int \<Rightarrow> int list \<times> int list \<times> int \<times> int \<times> int" where
  "blk e ctx zoff cs ce rs re s = for_down ce cs (blk_column e ctx zoff ce rs re) s"

text \<open>
  The invariant of the loop over the rows of column \<open>k\<close>, when the rows from
  \<open>r\<close> to \<open>re\<close> are done: \<open>Yin\<close>, \<open>Zin\<close> and \<open>pzin\<close> are the buffers and the
  diagonal value at the start of the column.
\<close>

definition rowI ::
  "params \<Rightarrow> NW_MemoContext \<Rightarrow> int list \<Rightarrow> int list \<Rightarrow> int \<Rightarrow> int \<Rightarrow> int \<Rightarrow> int \<Rightarrow>
   int list \<times> int list \<times> int \<times> int \<times> int \<Rightarrow> bool" where
  "rowI e ctx Yin Zin pzin k re r =
     (\<lambda>(Y_col, Z_row, pv, pz, vk).
        Z_row = Zin \<and> pz = pzin \<and> length Y_col = length Yin \<and>
        (\<forall>row. r \<le> row \<and> row \<le> re \<longrightarrow> Y_col ! nat row = phiZ e ctx k row) \<and>
        (\<forall>i. \<not> (r \<le> int i \<and> int i \<le> re) \<longrightarrow> Y_col ! i = Yin ! i) \<and>
        (r \<le> re \<longrightarrow> pv = Yin ! nat r \<and> vk = Y_col ! nat r))"

text \<open>
  The invariant of the loop over the columns of a block, when the columns from
  \<open>k\<close> to \<open>ce\<close> are done: \<open>Y0\<close> and \<open>Z0\<close> are the buffers at the start of
  the block.
\<close>

definition colI ::
  "params \<Rightarrow> NW_MemoContext \<Rightarrow> int \<Rightarrow> int \<Rightarrow> int \<Rightarrow> int \<Rightarrow> int list \<Rightarrow> int list \<Rightarrow> int \<Rightarrow>
   int list \<times> int list \<times> int \<times> int \<times> int \<Rightarrow> bool" where
  "colI e ctx zoff ce rs re Y0 Z0 k =
     (\<lambda>(Y_col, Z_row, pv, pz, vk).
        length Y_col = length Y0 \<and> length Z_row = length Z0 \<and>
        (\<forall>row. rs \<le> row \<and> row \<le> re \<longrightarrow> Y_col ! nat row = phiZ e ctx k row) \<and>
        (\<forall>i. \<not> (rs \<le> int i \<and> int i \<le> re) \<longrightarrow> Y_col ! i = Y0 ! i) \<and>
        (\<forall>i. \<not> (k + zoff \<le> int i \<and> int i \<le> ce + 1 + zoff) \<longrightarrow> Z_row ! i = Z0 ! i) \<and>
        (k \<le> ce \<longrightarrow>
           (\<forall>col. k \<le> col \<and> col \<le> ce + 1 \<longrightarrow> Z_row ! nat (col + zoff) = phiZ e ctx col rs) \<and>
           pz = Z0 ! nat (k + zoff)) \<and>
        (ce < k \<longrightarrow> Z_row = Z0))"

text \<open>
  What the scan of a block needs from the two buffers, and what it leaves in
  them: before, \<open>Y_col\<close> holds the column right of the block and \<open>Z_row\<close> the
  row below it; after, \<open>Y_col\<close> holds the first column of the block and
  \<open>Z_row\<close> its first row.
\<close>

definition blkP ::
  "params \<Rightarrow> NW_MemoContext \<Rightarrow> int \<Rightarrow> int \<Rightarrow> int \<Rightarrow> int \<Rightarrow> int \<Rightarrow> int list \<Rightarrow> int list \<Rightarrow> bool" where
  "blkP e ctx zoff cs ce rs re Y0 Z0 \<longleftrightarrow>
     0 \<le> rs \<and> rs \<le> re \<and> re \<le> int (N ctx) \<and> 0 \<le> cs \<and> cs \<le> ce + 1 \<and> ce < int (M ctx) \<and>
     0 \<le> cs + zoff \<and> nat (ce + 1 + zoff) < length Z0 \<and> length Y0 = N ctx + 1 \<and>
     (\<forall>row. rs \<le> row \<and> row \<le> re \<longrightarrow> Y0 ! nat row = phiZ e ctx (ce + 1) row) \<and>
     (re < int (N ctx) \<longrightarrow> cs \<le> ce \<longrightarrow>
        (\<forall>col. cs \<le> col \<and> col \<le> ce + 1 \<longrightarrow> Z0 ! nat (col + zoff) = phiZ e ctx col (re + 1)))"

definition blkQ ::
  "params \<Rightarrow> NW_MemoContext \<Rightarrow> int \<Rightarrow> int \<Rightarrow> int \<Rightarrow> int \<Rightarrow> int \<Rightarrow> int list \<Rightarrow> int list \<Rightarrow>
   int list \<Rightarrow> int list \<Rightarrow> bool" where
  "blkQ e ctx zoff cs ce rs re Y0 Z0 Y1 Z1 \<longleftrightarrow>
     length Y1 = length Y0 \<and> length Z1 = length Z0 \<and>
     (\<forall>row. rs \<le> row \<and> row \<le> re \<longrightarrow> Y1 ! nat row = phiZ e ctx cs row) \<and>
     (\<forall>i. \<not> (rs \<le> int i \<and> int i \<le> re) \<longrightarrow> Y1 ! i = Y0 ! i) \<and>
     (\<forall>i. \<not> (cs + zoff \<le> int i \<and> int i \<le> ce + 1 + zoff) \<longrightarrow> Z1 ! i = Z0 ! i) \<and>
     (cs \<le> ce \<longrightarrow>
        (\<forall>col. cs \<le> col \<and> col \<le> ce + 1 \<longrightarrow> Z1 ! nat (col + zoff) = phiZ e ctx col rs)) \<and>
     (ce < cs \<longrightarrow> Z1 = Z0)"

text \<open>
  The geometry of the tiles of edge \<open>Z\<close>: tile \<open>z\<close> of the rows covers the rows
  from \<open>row_low z\<close> to \<open>row_low (z + 1) - 1\<close>, strip \<open>z\<close> of the columns the
  columns from \<open>col_low z\<close> to \<open>col_low (z + 1) - 1\<close>.
\<close>

definition row_low :: "NW_MemoContext \<Rightarrow> int \<Rightarrow> int \<Rightarrow> int" where
  "row_low ctx Z z =
     (if z > int (N ctx) div Z then int (N ctx) + 1
      else if z > 0 then int (N ctx) mod Z + (z - 1) * Z else 0)"

definition col_low :: "NW_MemoContext \<Rightarrow> int \<Rightarrow> int \<Rightarrow> int" where
  "col_low ctx Z z = (if z > 0 then int (M ctx) mod Z + (z - 1) * Z else 0)"

text \<open>
  The invariant of the loop over the tiles of a strip, when the tiles from \<open>z\<close>
  up are done.
\<close>

definition stripI ::
  "params \<Rightarrow> NW_MemoContext \<Rightarrow> int \<Rightarrow> int \<Rightarrow> int \<Rightarrow> int \<Rightarrow> int list \<Rightarrow> int \<Rightarrow>
   int list \<times> int list \<times> int \<times> int \<times> int \<Rightarrow> bool" where
  "stripI e ctx Z zoff cs ce Z0 z =
     (\<lambda>(Y_col, Z_row, pv, pz, vk).
        length Y_col = N ctx + 1 \<and> length Z_row = length Z0 \<and>
        (\<forall>row. row_low ctx Z z \<le> row \<and> row \<le> int (N ctx) \<longrightarrow>
               Y_col ! nat row = phiZ e ctx cs row) \<and>
        (\<forall>row. 0 \<le> row \<and> row < row_low ctx Z z \<longrightarrow> Y_col ! nat row = phiZ e ctx (ce + 1) row) \<and>
        (0 < row_low ctx Z z \<and> row_low ctx Z z \<le> int (N ctx) \<longrightarrow>
           (\<forall>col. cs \<le> col \<and> col \<le> ce + 1 \<longrightarrow>
              Z_row ! nat (col + zoff) = phiZ e ctx col (row_low ctx Z z))))"



section \<open>The memoized engine computes the recurrence\<close>

lemma memo_ok_store:
  assumes "memo_ok e c memo" "i \<le> M c" "j \<le> N c" "v = phi e (subst_cost e) c i j"
  shows "memo_ok e c (memo[i := (memo ! i)[j := v]])"
    and "memo[i := (memo ! i)[j := v]] ! i ! j = v"
  using assms by (auto simp: memo_ok_def nth_list_update)

lemma RecMemo_phi:
  "memo_ok e c memo \<Longrightarrow> i \<le> M c \<Longrightarrow> j \<le> N c \<Longrightarrow>
   \<exists>memo'. EditDistance_NW_RecMemo e c memo i j = Some (phi e (subst_cost e) c i j, memo')
      \<and> memo_ok e c memo'"
proof (induction e c memo i j rule: EditDistance_NW_RecMemo.induct)
  case (1 e c memo i j)
  note IH = "1.IH" and ok = "1.prems"(1) and iM = "1.prems"(2) and jN = "1.prems"(3)
  let ?d = "subst_cost e"
  show ?case
  proof (cases "memo ! i ! j = NOT_YET_COMPUTED")
    case False
    with ok iM jN have "memo ! i ! j = phi e ?d c i j" by (auto simp: memo_ok_def)
    with False ok iM jN show ?thesis
      by (subst EditDistance_NW_RecMemo.simps) auto
  next
    case nyc: True
    have nb: "\<not> (M c < i \<or> N c < j)" using iM jN by auto
    have fin: "\<exists>memo'. (case Some (v, m) of None \<Rightarrow> None
                 | Some (res, memo4) \<Rightarrow> (let memo5 = memo4[i := (memo4 ! i)[j := res]]
                     in Some (memo5 ! i ! j, memo5))) = Some (phi e ?d c i j, memo') \<and> memo_ok e c memo'"
      if "memo_ok e c m" "phi e ?d c i j = v" for m v
      using memo_ok_store[OF that(1) iM jN that(2)[symmetric]] that(2) by (simp add: Let_def)
    consider (a) "i = M c" "j = N c" | (b) "i = M c" "j \<noteq> N c" | (c) "i \<noteq> M c" "j = N c"
      | (d) "i \<noteq> M c" "j \<noteq> N c" "\<not> isBase e (X c ! i)"
      | (e) "i \<noteq> M c" "j \<noteq> N c" "isBase e (X c ! i)" "\<not> isBase e (Y c ! j)"
      | (f) "i \<noteq> M c" "j \<noteq> N c" "isBase e (X c ! i)" "isBase e (Y c ! j)" by blast
    then show ?thesis
    proof cases
      case a
      have p: "phi e ?d c i j = 0" using a by (subst phi.simps) simp
      show ?thesis using fin[OF ok p] a nyc nb
        by (subst EditDistance_NW_RecMemo.simps) simp
    next
      case b
      obtain m1 where r: "EditDistance_NW_RecMemo e c memo i (j + 1) = Some (phi e ?d c i (j + 1), m1)"
        and ok1: "memo_ok e c m1"
        using IH(1)[OF nb nyc b(1) b(2) ok] iM jN b by auto
      have p: "phi e ?d c i j = (if isBase e (Y c ! j) then INSERTION_COST e else 0) + phi e ?d c i (j + 1)"
        using b jN by (subst phi.simps) simp
      show ?thesis using fin[OF ok1 p] b nyc nb r
        by (subst EditDistance_NW_RecMemo.simps) simp
    next
      case c
      obtain m1 where r: "EditDistance_NW_RecMemo e c memo (i + 1) j = Some (phi e ?d c (i + 1) j, m1)"
        and ok1: "memo_ok e c m1"
        using IH(2)[OF nb nyc c(1) c(2) ok] iM jN c by auto
      have p: "phi e ?d c i j = (if isBase e (X c ! i) then INSERTION_COST e else 0) + phi e ?d c (i + 1) j"
        using c iM by (subst phi.simps) simp
      show ?thesis using fin[OF ok1 p] c nyc nb r
        by (subst EditDistance_NW_RecMemo.simps) simp
    next
      case d
      obtain m1 where r: "EditDistance_NW_RecMemo e c memo (i + 1) j = Some (phi e ?d c (i + 1) j, m1)"
        and ok1: "memo_ok e c m1"
        using IH(3)[OF nb nyc d(1) d(2) d(3) ok] iM jN d by auto
      have p: "phi e ?d c i j = phi e ?d c (i + 1) j"
        using d iM jN by (subst phi.simps) simp
      show ?thesis using fin[OF ok1 p] d nyc nb r
        by (subst EditDistance_NW_RecMemo.simps) (simp add: ManageBaseError_def)
    next
      case e
      obtain m1 where r: "EditDistance_NW_RecMemo e c memo i (j + 1) = Some (phi e ?d c i (j + 1), m1)"
        and ok1: "memo_ok e c m1"
        using IH(4)[OF nb nyc e(1) e(2) _ _ ok] iM jN e by auto
      have p: "phi e ?d c i j = phi e ?d c i (j + 1)"
        using e iM jN by (subst phi.simps) simp
      show ?thesis using fin[OF ok1 p] e nyc nb r
        by (subst EditDistance_NW_RecMemo.simps) (simp add: ManageBaseError_def)
    next
      case f
      have nX: "\<not> \<not> isBase e (X c ! i)" and nY: "\<not> \<not> isBase e (Y c ! j)" using f by auto
      obtain m1 where r1: "EditDistance_NW_RecMemo e c memo (i + 1) (j + 1) = Some (phi e ?d c (i + 1) (j + 1), m1)"
        and ok1: "memo_ok e c m1"
        using IH(5)[OF nb nyc f(1) f(2) nX nY ok] iM jN f by auto
      obtain m2 where r2: "EditDistance_NW_RecMemo e c m1 (i + 1) j = Some (phi e ?d c (i + 1) j, m2)"
        and ok2: "memo_ok e c m2"
        using IH(6)[OF nb nyc f(1) f(2) nX nY r1 refl ok1] iM jN f by auto
      obtain m3 where r3: "EditDistance_NW_RecMemo e c m2 i (j + 1) = Some (phi e ?d c i (j + 1), m3)"
        and ok3: "memo_ok e c m3"
        using IH(7)[OF nb nyc f(1) f(2) nX nY r1 refl r2 refl ok2] iM jN f by auto
      have p: "phi e ?d c i j =
          (let min0 = subst_cost e (X c ! i) (Y c ! j) + phi e ?d c (i + 1) (j + 1);
               cas2 = INSERTION_COST e + phi e ?d c (i + 1) j;
               min1 = (if cas2 < min0 then cas2 else min0);
               cas3 = INSERTION_COST e + phi e ?d c i (j + 1);
               min2 = (if cas3 < min1 then cas3 else min1)
           in min2)"
        using f iM jN by (subst phi.simps) (simp add: Let_def min_def)
      show ?thesis using fin[OF ok3 p] f nyc nb r1 r2 r3
        by (subst EditDistance_NW_RecMemo.simps) (simp add: Let_def)
    qed
  qed
qed

lemma memo_ok_init:
  "memo_ok e c (replicate (M c + 1) (replicate (N c + 1) NOT_YET_COMPUTED))"
  by (simp add: memo_ok_def del: replicate_Suc)

lemma Rec_phi:
  "EditDistance_NW_Rec e A lengthA B lengthB =
     Some (phi e (subst_cost e) (orientation A lengthA B lengthB) 0 0)"
proof -
  let ?c = "orientation A lengthA B lengthB"
  obtain memo' where
    "EditDistance_NW_RecMemo e ?c (replicate (M ?c + 1) (replicate (N ?c + 1) NOT_YET_COMPUTED)) 0 0
       = Some (phi e (subst_cost e) ?c 0 0, memo')"
    using RecMemo_phi[OF memo_ok_init, of 0 ?c 0 e] by auto
  then show ?thesis by (simp add: EditDistance_NW_Rec_def Let_def)
qed


section \<open>Rules for the loops\<close>

lemma for_down_empty [simp]: "hi < lo \<Longrightarrow> for_down hi lo body s = s"
  by (subst for_down.simps) simp

lemma for_down_step: "lo \<le> hi \<Longrightarrow> for_down hi lo body s = for_down (hi - 1) lo body (body hi s)"
  by (subst for_down.simps) simp

text \<open>An invariant \<open>I i\<close> that holds when the iterations from \<open>i\<close> to \<open>hi\<close> are done.\<close>

lemma for_down_rule:
  assumes "I (hi + 1) s" and "lo \<le> hi + 1"
    and "\<And>i t. lo \<le> i \<Longrightarrow> i \<le> hi \<Longrightarrow> I (i + 1) t \<Longrightarrow> I i (body i t)"
  shows "I lo (for_down hi lo body s)"
  using assms
proof (induction hi lo body s rule: for_down.induct)
  case (1 i lo body s)
  show ?case
  proof (cases "lo \<le> i")
    case True
    have "I (i - 1 + 1) (body i s)" using "1.prems"(3)[of i s] "1.prems"(1) True by simp
    then have "I lo (for_down (i - 1) lo body (body i s))"
      using "1.IH"[OF True] True "1.prems"(3) by simp
    then show ?thesis using True by (simp add: for_down_step)
  next
    case False
    then have "i + 1 = lo" using "1.prems"(2) by simp
    then show ?thesis using False "1.prems"(1) by simp
  qed
qed

text \<open>Two loops whose bodies agree at every index of the range agree.\<close>

lemma for_down_cong:
  assumes "\<And>i t. lo \<le> i \<Longrightarrow> i \<le> hi \<Longrightarrow> f i t = g i t"
  shows "for_down hi lo f s = for_down hi lo g s"
  using assms
proof (induction hi lo f s rule: for_down.induct)
  case (1 i lo body s)
  show ?case
  proof (cases "lo \<le> i")
    case True
    have "for_down (i - 1) lo body (body i s) = for_down (i - 1) lo g (body i s)"
      using "1.IH"[OF True] "1.prems" by simp
    then show ?thesis using True "1.prems"[of i s] by (simp add: for_down_step)
  next
    case False
    then show ?thesis by simp
  qed
qed

text \<open>A loop over a shifted counter.\<close>

lemma for_down_shift:
  "for_down hi lo (\<lambda>i. f (i + k)) s = for_down (hi + k) (lo + k) f s"
proof (induction hi lo "\<lambda>i. f (i + k)" s rule: for_down.induct)
  case (1 i lo s)
  show ?case
  proof (cases "lo \<le> i")
    case True
    have a: "for_down i lo (\<lambda>i. f (i + k)) s = for_down (i - 1) lo (\<lambda>i. f (i + k)) (f (i + k) s)"
      using True by (rule for_down_step)
    have b: "for_down (i + k) (lo + k) f s = for_down (i + k - 1) (lo + k) f (f (i + k) s)"
      using True by (intro for_down_step) simp
    have c: "i - 1 + k = i + k - 1" by simp
    show ?thesis using "1.hyps"[OF True] unfolding a b c .
  next
    case False
    then show ?thesis by simp
  qed
qed

text \<open>A relation between two states that the bodies of two loops preserve.\<close>

lemma for_down_sim:
  assumes "R s t" and "\<And>i s t. lo \<le> i \<Longrightarrow> i \<le> hi \<Longrightarrow> R s t \<Longrightarrow> R (f i s) (g i t)"
  shows "R (for_down hi lo f s) (for_down hi lo g t)"
  using assms
proof (induction hi lo f s arbitrary: t rule: for_down.induct)
  case (1 i lo body s)
  show ?case
  proof (cases "lo \<le> i")
    case True
    have "R (body i s) (g i t)" using "1.prems" True by simp
    then have "R (for_down (i - 1) lo body (body i s)) (for_down (i - 1) lo g (g i t))"
      using "1.IH"[OF True] "1.prems"(2) by simp
    then show ?thesis using True by (simp add: for_down_step)
  next
    case False
    then show ?thesis using "1.prems"(1) by simp
  qed
qed

section \<open>The recurrence, case by case\<close>

lemma min3_min: "min3 a b c = min a (min b c)"
  by (auto simp: min3_def min_def)

lemma phiZ_corner: "M c \<le> nat col \<Longrightarrow> N c \<le> nat row \<Longrightarrow> phiZ e c col row = 0"
  unfolding phiZ_def by (subst phi.simps) simp

lemma phiZ_right:
  assumes "int (M c) \<le> col" "0 \<le> row" "row < int (N c)"
  shows "phiZ e c col row =
           (if isBase e (Y c ! nat row) then INSERTION_COST e else 0) + phiZ e c col (row + 1)"
proof -
  have n: "M c \<le> nat col" "\<not> N c \<le> nat row" "nat (row + 1) = nat row + 1"
    using assms by simp_all
  show ?thesis unfolding phiZ_def n(3)
    by (subst phi.simps) (simp add: n assms)
qed

lemma phiZ_bottom:
  assumes "0 \<le> col" "col < int (M c)" "int (N c) \<le> row"
  shows "phiZ e c col row =
           (if isBase e (X c ! nat col) then INSERTION_COST e else 0) + phiZ e c (col + 1) row"
proof -
  have n: "\<not> M c \<le> nat col" "N c \<le> nat row" "nat (col + 1) = nat col + 1"
    using assms by simp_all
  show ?thesis unfolding phiZ_def n(3)
    by (subst phi.simps) (simp add: n assms)
qed

lemma phiZ_skip_X:
  assumes "0 \<le> col" "col < int (M c)" "0 \<le> row" "row < int (N c)" "\<not> isBase e (X c ! nat col)"
  shows "phiZ e c col row = phiZ e c (col + 1) row"
proof -
  have n: "\<not> M c \<le> nat col" "\<not> N c \<le> nat row" "nat (col + 1) = nat col + 1"
    using assms by simp_all
  show ?thesis unfolding phiZ_def n(3)
    by (subst phi.simps) (simp add: n assms)
qed

lemma phiZ_skip_Y:
  assumes "0 \<le> col" "col < int (M c)" "0 \<le> row" "row < int (N c)"
    "isBase e (X c ! nat col)" "\<not> isBase e (Y c ! nat row)"
  shows "phiZ e c col row = phiZ e c col (row + 1)"
proof -
  have n: "\<not> M c \<le> nat col" "\<not> N c \<le> nat row" "nat (row + 1) = nat row + 1"
    using assms by simp_all
  show ?thesis unfolding phiZ_def n(3)
    by (subst phi.simps) (simp add: n assms)
qed

lemma phiZ_bases:
  assumes "0 \<le> col" "col < int (M c)" "0 \<le> row" "row < int (N c)"
    "isBase e (X c ! nat col)" "isBase e (Y c ! nat row)"
  shows "phiZ e c col row =
           min3 (subst_cost e (X c ! nat col) (Y c ! nat row) + phiZ e c (col + 1) (row + 1))
                (INSERTION_COST e + phiZ e c (col + 1) row)
                (INSERTION_COST e + phiZ e c col (row + 1))"
proof -
  have n: "\<not> M c \<le> nat col" "\<not> N c \<le> nat row" "nat (col + 1) = nat col + 1" "nat (row + 1) = nat row + 1"
    using assms by simp_all
  show ?thesis unfolding phiZ_def n(3,4)
    by (subst phi.simps) (simp add: n assms min3_min)
qed

section \<open>The scan of a block computes the recurrence\<close>

lemma blk_cell_value:
  assumes r: "0 \<le> r" "r \<le> re" "re \<le> int (N ctx)"
    and k: "0 \<le> k" "k < int (M ctx)"
    and len: "nat r < length Y_col"
    and right: "Y_col ! nat r = phiZ e ctx (k + 1) r"
    and below: "r < re \<Longrightarrow> Y_col ! nat (r + 1) = phiZ e ctx k (r + 1) \<and> pv = phiZ e ctx (k + 1) (r + 1)"
    and seam: "r = re \<Longrightarrow> re < int (N ctx) \<Longrightarrow>
                Z_row ! nat (k + zoff) = phiZ e ctx k (re + 1) \<and>
                (if k = ce then Z_row ! nat (k + zoff + 1) else pz) = phiZ e ctx (k + 1) (re + 1)"
  shows "blk_cell e ctx zoff ce re k r (Y_col, Z_row, pv, pz, vk) =
           (Y_col[nat r := phiZ e ctx k r], Z_row, Y_col ! nat r, pz, phiZ e ctx k r)"
proof -
  consider (edge) "r = int (N ctx)"
    | (skipX) "r < int (N ctx)" "\<not> isBase e (X ctx ! nat k)"
    | (skipY) "r < int (N ctx)" "isBase e (X ctx ! nat k)" "\<not> isBase e (Y ctx ! nat r)"
    | (bases) "r < int (N ctx)" "isBase e (X ctx ! nat k)" "isBase e (Y ctx ! nat r)"
    using r by linarith
  then show ?thesis
  proof cases
    case edge
    have "phiZ e ctx k r = (if isBase e (X ctx ! nat k) then INSERTION_COST e else 0) + phiZ e ctx (k + 1) r"
      using phiZ_bottom[of k ctx r e] k edge by simp
    then show ?thesis using edge len right by (simp add: blk_cell_def)
  next
    case skipX
    have "phiZ e ctx k r = phiZ e ctx (k + 1) r"
      using phiZ_skip_X[of k ctx r e] k r skipX by simp
    moreover have "Y_col[nat r := phiZ e ctx (k + 1) r] = Y_col"
      using right by (metis list_update_id)
    ultimately show ?thesis using skipX len right by (simp add: blk_cell_def)
  next
    case skipY
    have p: "phiZ e ctx k r = phiZ e ctx k (r + 1)"
      using phiZ_skip_Y[of k ctx r e] k r skipY by simp
    show ?thesis
    proof (cases "r = re")
      case True
      then show ?thesis using skipY len seam p by (simp add: blk_cell_def)
    next
      case False
      then have "r < re" using r by simp
      then show ?thesis using skipY len below p False by (simp add: blk_cell_def)
    qed
  next
    case bases
    have p: "phiZ e ctx k r =
           min3 (subst_cost e (X ctx ! nat k) (Y ctx ! nat r) + phiZ e ctx (k + 1) (r + 1))
                (INSERTION_COST e + phiZ e ctx (k + 1) r)
                (INSERTION_COST e + phiZ e ctx k (r + 1))"
      using phiZ_bases[of k ctx r e] k r bases by simp
    show ?thesis
    proof (cases "r = re")
      case True
      then have s: "Z_row ! nat (k + zoff) = phiZ e ctx k (re + 1)"
        "(if k = ce then Z_row ! nat (k + zoff + 1) else pz) = phiZ e ctx (k + 1) (re + 1)"
        using seam bases by simp_all
      have d: "k = ce \<Longrightarrow> Z_row ! nat (k + zoff + 1) = phiZ e ctx (k + 1) (re + 1)"
        "k \<noteq> ce \<Longrightarrow> pz = phiZ e ctx (k + 1) (re + 1)"
        using s(2) by (simp_all split: if_splits)
      show ?thesis using True bases len right s(1) p d
        by (cases "k = ce") (simp_all add: blk_cell_def)
    next
      case False
      then have "r < re" using r by simp
      then show ?thesis using bases len right below p False by (simp add: blk_cell_def)
    qed
  qed
qed

lemma blk_cell_step:
  assumes inv: "rowI e ctx Yin Zin pzin k re (r + 1) s"
    and r: "0 \<le> r" "r \<le> re" "re \<le> int (N ctx)"
    and k: "0 \<le> k" "k < int (M ctx)"
    and len: "length Yin = N ctx + 1"
    and Yin: "\<forall>row. r \<le> row \<and> row \<le> re \<longrightarrow> Yin ! nat row = phiZ e ctx (k + 1) row"
    and seam: "re < int (N ctx) \<Longrightarrow>
                Zin ! nat (k + zoff) = phiZ e ctx k (re + 1) \<and>
                (if k = ce then Zin ! nat (k + zoff + 1) else pzin) = phiZ e ctx (k + 1) (re + 1)"
  shows "rowI e ctx Yin Zin pzin k re r (blk_cell e ctx zoff ce re k r s)"
proof -
  obtain Y_col Z_row pv pz vk where s: "s = (Y_col, Z_row, pv, pz, vk)" by (cases s) auto
  have Z: "Z_row = Zin" "pz = pzin" and ly: "length Y_col = length Yin"
    and dn: "\<forall>row. r + 1 \<le> row \<and> row \<le> re \<longrightarrow> Y_col ! nat row = phiZ e ctx k row"
    and rest: "\<forall>i. \<not> (r + 1 \<le> int i \<and> int i \<le> re) \<longrightarrow> Y_col ! i = Yin ! i"
    and pv: "r + 1 \<le> re \<longrightarrow> pv = Yin ! nat (r + 1)"
    using inv unfolding rowI_def s by auto
  have yr: "Y_col ! nat r = Yin ! nat r" using rest r by simp
  have right: "Y_col ! nat r = phiZ e ctx (k + 1) r" using yr Yin r by simp
  have below: "r < re \<Longrightarrow> Y_col ! nat (r + 1) = phiZ e ctx k (r + 1) \<and> pv = phiZ e ctx (k + 1) (r + 1)"
    using dn pv Yin by simp
  have lr: "nat r < length Y_col" using ly len r by simp
  have v: "blk_cell e ctx zoff ce re k r s =
           (Y_col[nat r := phiZ e ctx k r], Z_row, Y_col ! nat r, pz, phiZ e ctx k r)"
    unfolding s using r k lr right below seam unfolding Z
    by (intro blk_cell_value) auto
  have a: "(Y_col[nat r := phiZ e ctx k r]) ! nat row = phiZ e ctx k row" if "r \<le> row" "row \<le> re" for row
  proof (cases "row = r")
    case True then show ?thesis using lr by simp
  next
    case False
    then have "nat row \<noteq> nat r" "r + 1 \<le> row" using that r by auto
    then show ?thesis using dn that by simp
  qed
  have b: "(Y_col[nat r := phiZ e ctx k r]) ! i = Yin ! i" if "\<not> (r \<le> int i \<and> int i \<le> re)" for i
  proof -
    have "i \<noteq> nat r" "\<not> (r + 1 \<le> int i \<and> int i \<le> re)" using that r by linarith+
    then show ?thesis using rest by simp
  qed
  show ?thesis unfolding v rowI_def using Z ly a b yr lr by simp
qed

lemma blk_rows:
  assumes r: "0 \<le> rs" "rs \<le> re" "re \<le> int (N ctx)"
    and k: "0 \<le> k" "k < int (M ctx)"
    and len: "length Y_col = N ctx + 1"
    and Yin: "\<forall>row. rs \<le> row \<and> row \<le> re \<longrightarrow> Y_col ! nat row = phiZ e ctx (k + 1) row"
    and seam: "re < int (N ctx) \<Longrightarrow>
                Z_row ! nat (k + zoff) = phiZ e ctx k (re + 1) \<and>
                (if k = ce then Z_row ! nat (k + zoff + 1) else pz) = phiZ e ctx (k + 1) (re + 1)"
  shows "rowI e ctx Y_col Z_row pz k re rs
           (for_down re rs (blk_cell e ctx zoff ce re k) (Y_col, Z_row, pv, pz, vk))"
proof (rule for_down_rule[where I = "rowI e ctx Y_col Z_row pz k re"])
  show "rowI e ctx Y_col Z_row pz k re (re + 1) (Y_col, Z_row, pv, pz, vk)"
    by (simp add: rowI_def)
  show "rs \<le> re + 1" using r by simp
  fix i t
  assume i: "rs \<le> i" "i \<le> re" and inv: "rowI e ctx Y_col Z_row pz k re (i + 1) t"
  show "rowI e ctx Y_col Z_row pz k re i (blk_cell e ctx zoff ce re k i t)"
    using inv i r k len Yin seam by (intro blk_cell_step) auto
qed

lemma blk_column_step:
  assumes r: "0 \<le> rs" "rs \<le> re" "re \<le> int (N ctx)"
    and c: "0 \<le> cs" "cs \<le> k" "k \<le> ce" "ce < int (M ctx)"
    and z: "0 \<le> cs + zoff" "nat (ce + 1 + zoff) < length Z0"
    and len: "length Y0 = N ctx + 1"
    and pre: "re < int (N ctx) \<Longrightarrow>
                \<forall>col. cs \<le> col \<and> col \<le> ce + 1 \<longrightarrow> Z0 ! nat (col + zoff) = phiZ e ctx col (re + 1)"
    and inv: "colI e ctx zoff ce rs re Y0 Z0 (k + 1) s"
  shows "colI e ctx zoff ce rs re Y0 Z0 k (blk_column e ctx zoff ce rs re k s)"
proof -
  obtain Y_col Z_row pv pz vk where s: "s = (Y_col, Z_row, pv, pz, vk)" by (cases s) auto
  have ly: "length Y_col = length Y0" and lz: "length Z_row = length Z0"
    and ys: "\<forall>row. rs \<le> row \<and> row \<le> re \<longrightarrow> Y_col ! nat row = phiZ e ctx (k + 1) row"
    and yo: "\<forall>i. \<not> (rs \<le> int i \<and> int i \<le> re) \<longrightarrow> Y_col ! i = Y0 ! i"
    and zo: "\<forall>i. \<not> (k + 1 + zoff \<le> int i \<and> int i \<le> ce + 1 + zoff) \<longrightarrow> Z_row ! i = Z0 ! i"
    and zs: "k + 1 \<le> ce \<longrightarrow>
           (\<forall>col. k + 1 \<le> col \<and> col \<le> ce + 1 \<longrightarrow> Z_row ! nat (col + zoff) = phiZ e ctx col rs) \<and>
           pz = Z0 ! nat (k + 1 + zoff)"
    and z0: "ce < k + 1 \<longrightarrow> Z_row = Z0"
    using inv unfolding colI_def s by auto
  have zk: "Z_row ! nat (k + zoff) = Z0 ! nat (k + zoff)"
    using zo c z by simp
  have pk: "Z0 ! nat (col + zoff) = phiZ e ctx col (re + 1)"
    if "cs \<le> col" "col \<le> ce + 1" "re < int (N ctx)" for col
    using pre that by blast
  have seam: "Z_row ! nat (k + zoff) = phiZ e ctx k (re + 1) \<and>
        (if k = ce then Z_row ! nat (k + zoff + 1) else pz) = phiZ e ctx (k + 1) (re + 1)"
    if "re < int (N ctx)"
  proof (cases "k = ce")
    case True
    then have "Z_row = Z0" using z0 by simp
    moreover have "Z0 ! nat (k + zoff + 1) = phiZ e ctx (k + 1) (re + 1)"
      using pk[of "k + 1"] c that by (simp add: ac_simps)
    moreover have "Z0 ! nat (k + zoff) = phiZ e ctx k (re + 1)"
      using pk[of k] c that by simp
    ultimately show ?thesis using True by simp
  next
    case False
    then have "k + 1 \<le> ce" using c by simp
    then have "pz = Z0 ! nat (k + 1 + zoff)" using zs by simp
    moreover have "Z0 ! nat (k + 1 + zoff) = phiZ e ctx (k + 1) (re + 1)"
      using pk[of "k + 1"] c that by simp
    moreover have "Z0 ! nat (k + zoff) = phiZ e ctx k (re + 1)"
      using pk[of k] c that by simp
    ultimately show ?thesis using False zk by simp
  qed
  define t where "t = for_down re rs (blk_cell e ctx zoff ce re k) (Y_col, Z_row, pv, pz, vk)"
  obtain Y' Z' pv' pz' vk' where t: "t = (Y', Z', pv', pz', vk')" by (cases t) auto
  have "rowI e ctx Y_col Z_row pz k re rs t"
    unfolding t_def using r c ly len ys seam by (intro blk_rows) auto
  then have Z': "Z' = Z_row" and ly': "length Y' = length Y_col"
    and ys': "\<forall>row. rs \<le> row \<and> row \<le> re \<longrightarrow> Y' ! nat row = phiZ e ctx k row"
    and yo': "\<forall>i. \<not> (rs \<le> int i \<and> int i \<le> re) \<longrightarrow> Y' ! i = Y_col ! i"
    and pv': "pv' = Y_col ! nat rs" and vk': "vk' = Y' ! nat rs"
    unfolding rowI_def t using r by auto
  have pvv: "pv' = phiZ e ctx (k + 1) rs" using pv' ys r by simp
  have vkv: "vk' = phiZ e ctx k rs" using vk' ys' r by simp
  define Z1 where "Z1 = Z_row[nat (k + zoff) := vk']"
  define Z2 where "Z2 = (if k = ce then Z1[nat (ce + 1 + zoff) := pv'] else Z1)"
  have res: "blk_column e ctx zoff ce rs re k s = (Y', Z2, pv', Z_row ! nat (k + zoff), vk')"
    unfolding blk_column_def s using t Z' by (simp add: t_def[symmetric] Z1_def Z2_def Let_def)
  have l2: "length Z2 = length Z0" using lz by (simp add: Z2_def Z1_def)
  have ik: "nat (k + zoff) < length Z_row" using lz z c by simp
  have ic: "nat (ce + 1 + zoff) < length Z_row" using lz z by simp
  have ne: "nat (k + zoff) \<noteq> nat (ce + 1 + zoff)" using c z by simp
  have out: "Z2 ! i = Z0 ! i" if "\<not> (k + zoff \<le> int i \<and> int i \<le> ce + 1 + zoff)" for i
  proof -
    have "i \<noteq> nat (k + zoff)" "i \<noteq> nat (ce + 1 + zoff)"
      "\<not> (k + 1 + zoff \<le> int i \<and> int i \<le> ce + 1 + zoff)"
      using that c z by linarith+
    then show ?thesis using zo by (simp add: Z2_def Z1_def)
  qed
  have inn: "Z2 ! nat (col + zoff) = phiZ e ctx col rs" if cl: "k \<le> col" "col \<le> ce + 1" for col
  proof -
    consider (first) "col = k" | (corner) "col = ce + 1" "k = ce" | (later) "k + 1 \<le> col" "k + 1 \<le> ce"
      using cl c by linarith
    then show ?thesis
    proof cases
      case first
      then show ?thesis using ik ic ne vkv by (simp add: Z2_def Z1_def)
    next
      case corner
      then show ?thesis using ik ic ne pvv by (simp add: Z2_def Z1_def)
    next
      case later
      then have "nat (col + zoff) \<noteq> nat (k + zoff)" using c z by linarith
      moreover have "Z_row ! nat (col + zoff) = phiZ e ctx col rs" using zs later cl by simp
      moreover have "k \<noteq> ce" using later by simp
      ultimately show ?thesis by (simp add: Z2_def Z1_def)
    qed
  qed
  show ?thesis
    unfolding res colI_def using ly ly' l2 ys' yo yo' out inn zk c by simp
qed

lemma blk_correct:
  assumes "blkP e ctx zoff cs ce rs re Y0 Z0"
    and "blk e ctx zoff cs ce rs re (Y0, Z0, pv, pz, vk) = (Y1, Z1, pv1, pz1, vk1)"
  shows "blkQ e ctx zoff cs ce rs re Y0 Z0 Y1 Z1"
proof -
  have r: "0 \<le> rs" "rs \<le> re" "re \<le> int (N ctx)"
    and c: "0 \<le> cs" "cs \<le> ce + 1" "ce < int (M ctx)"
    and z: "0 \<le> cs + zoff" "nat (ce + 1 + zoff) < length Z0"
    and len: "length Y0 = N ctx + 1"
    and ypre: "\<forall>row. rs \<le> row \<and> row \<le> re \<longrightarrow> Y0 ! nat row = phiZ e ctx (ce + 1) row"
    and zpre: "re < int (N ctx) \<longrightarrow> cs \<le> ce \<longrightarrow>
        (\<forall>col. cs \<le> col \<and> col \<le> ce + 1 \<longrightarrow> Z0 ! nat (col + zoff) = phiZ e ctx col (re + 1))"
    using assms(1) unfolding blkP_def by auto
  have "colI e ctx zoff ce rs re Y0 Z0 cs (blk e ctx zoff cs ce rs re (Y0, Z0, pv, pz, vk))"
    unfolding blk_def
  proof (rule for_down_rule[where I = "colI e ctx zoff ce rs re Y0 Z0"])
    show "colI e ctx zoff ce rs re Y0 Z0 (ce + 1) (Y0, Z0, pv, pz, vk)"
      using ypre by (simp add: colI_def)
    show "cs \<le> ce + 1" by (rule c)
    fix i t
    assume i: "cs \<le> i" "i \<le> ce" and inv: "colI e ctx zoff ce rs re Y0 Z0 (i + 1) t"
    have "cs \<le> ce" using i by simp
    then show "colI e ctx zoff ce rs re Y0 Z0 i (blk_column e ctx zoff ce rs re i t)"
      using r c z len zpre i inv by (intro blk_column_step[where cs = cs]) auto
  qed
  then show ?thesis unfolding assms(2) colI_def blkQ_def by auto
qed

lemma CO_cell_blk: "CO_cell e ctx Z_end Y_end col = blk_cell e ctx 0 Z_end Y_end col"
  by (auto simp: CO_cell_def blk_cell_def ManageBaseError_def fun_eq_iff Let_def)

lemma CO_column_blk: "CO_column e ctx Z_end Y_start Y_end = blk_column e ctx 0 Z_end Y_start Y_end"
  by (simp add: CO_column_def blk_column_def CO_cell_blk fun_eq_iff split_def Let_def)

lemma CO_base_blk: "CO_base e ctx Z_start Z_end Y_start Y_end = blk e ctx 0 Z_start Z_end Y_start Y_end"
  by (simp add: CO_base_def blk_def CO_column_blk fun_eq_iff)

lemma blkP_cols_right:
  assumes "blkP e ctx zoff cs ce rs re Y0 Z0" "re = int (N ctx)" "cs \<le> m" "m \<le> ce"
  shows "blkP e ctx zoff (m + 1) ce rs re Y0 Z0"
  using assms unfolding blkP_def by simp

lemma blkP_cols_left:
  assumes "blkP e ctx zoff cs ce rs re Y0 Z0" "re = int (N ctx)" "cs \<le> m" "m \<le> ce"
    and "blkQ e ctx zoff (m + 1) ce rs re Y0 Z0 Y1 Z1"
  shows "blkP e ctx zoff cs m rs re Y1 Z1"
proof -
  have "nat (m + 1 + zoff) < length Z0" using assms(1,4) unfolding blkP_def by linarith
  then show ?thesis using assms unfolding blkP_def blkQ_def by simp
qed

lemma blkQ_cols:
  assumes q1: "blkQ e ctx zoff (m + 1) ce rs re Y0 Z0 Y1 Z1"
    and q2: "blkQ e ctx zoff cs m rs re Y1 Z1 Y2 Z2"
    and m: "cs \<le> m" "m < ce" "0 \<le> cs + zoff"
  shows "blkQ e ctx zoff cs ce rs re Y0 Z0 Y2 Z2"
proof -
  have a: "Y2 ! i = Y0 ! i" if "\<not> (rs \<le> int i \<and> int i \<le> re)" for i
    using q1 q2 that unfolding blkQ_def by simp
  have b: "Z2 ! i = Z0 ! i" if "\<not> (cs + zoff \<le> int i \<and> int i \<le> ce + 1 + zoff)" for i
  proof -
    have "\<not> (cs + zoff \<le> int i \<and> int i \<le> m + 1 + zoff)"
      "\<not> (m + 1 + zoff \<le> int i \<and> int i \<le> ce + 1 + zoff)" using that m by linarith+
    then show ?thesis using q1 q2 unfolding blkQ_def by simp
  qed
  have c: "Z2 ! nat (col + zoff) = phiZ e ctx col rs" if cl: "cs \<le> col" "col \<le> ce + 1" for col
  proof (cases "col \<le> m + 1")
    case True
    then show ?thesis using q2 m cl unfolding blkQ_def by simp
  next
    case False
    then have "\<not> (cs + zoff \<le> int (nat (col + zoff)) \<and> int (nat (col + zoff)) \<le> m + 1 + zoff)"
      using m cl by linarith
    then have "Z2 ! nat (col + zoff) = Z1 ! nat (col + zoff)" using q2 unfolding blkQ_def by blast
    moreover have "Z1 ! nat (col + zoff) = phiZ e ctx col rs"
      using q1 m cl False unfolding blkQ_def by simp
    ultimately show ?thesis by simp
  qed
  have d: "Y2 ! nat row = phiZ e ctx cs row" if "rs \<le> row" "row \<le> re" for row
    using q2 that unfolding blkQ_def by simp
  have l: "length Y2 = length Y0" "length Z2 = length Z0" using q1 q2 unfolding blkQ_def by simp_all
  show ?thesis unfolding blkQ_def using a b c d l m by simp
qed

lemma blkP_rows_low:
  assumes "blkP e ctx zoff cs ce rs re Y0 Z0" "rs \<le> m" "m < re"
  shows "blkP e ctx zoff cs ce (m + 1) re Y0 Z0"
  using assms unfolding blkP_def by simp

lemma blkP_rows_up:
  assumes p: "blkP e ctx zoff cs ce rs re Y0 Z0" and m: "rs \<le> m" "m < re"
    and q: "blkQ e ctx zoff cs ce (m + 1) re Y0 Z0 Y1 Z1"
  shows "blkP e ctx zoff cs ce rs m Y1 Z1"
proof -
  have a: "Y1 ! nat row = phiZ e ctx (ce + 1) row" if rw: "rs \<le> row" "row \<le> m" for row
  proof -
    have "0 \<le> row" "rs \<le> row \<and> row \<le> re" using p rw m unfolding blkP_def by simp_all
    then have "\<not> (m + 1 \<le> int (nat row) \<and> int (nat row) \<le> re)" using rw by simp
    then have "Y1 ! nat row = Y0 ! nat row" using q unfolding blkQ_def by blast
    then show ?thesis using p \<open>rs \<le> row \<and> row \<le> re\<close> unfolding blkP_def by simp
  qed
  show ?thesis using p q m a unfolding blkP_def blkQ_def by simp
qed

lemma blkQ_rows:
  assumes q1: "blkQ e ctx zoff cs ce (m + 1) re Y0 Z0 Y1 Z1"
    and q2: "blkQ e ctx zoff cs ce rs m Y1 Z1 Y2 Z2"
    and m: "0 \<le> rs" "rs \<le> m" "m < re"
  shows "blkQ e ctx zoff cs ce rs re Y0 Z0 Y2 Z2"
proof -
  have a: "Y2 ! i = Y0 ! i" if "\<not> (rs \<le> int i \<and> int i \<le> re)" for i
  proof -
    have "\<not> (rs \<le> int i \<and> int i \<le> m)" "\<not> (m + 1 \<le> int i \<and> int i \<le> re)"
      using that m by linarith+
    then show ?thesis using q1 q2 unfolding blkQ_def by simp
  qed
  have b: "Z2 ! i = Z0 ! i" if "\<not> (cs + zoff \<le> int i \<and> int i \<le> ce + 1 + zoff)" for i
    using q1 q2 that unfolding blkQ_def by simp
  have d: "Y2 ! nat row = phiZ e ctx cs row" if rw: "rs \<le> row" "row \<le> re" for row
  proof (cases "row \<le> m")
    case True
    then show ?thesis using q2 rw unfolding blkQ_def by simp
  next
    case False
    then have "\<not> (rs \<le> int (nat row) \<and> int (nat row) \<le> m)" using m rw by linarith
    then have "Y2 ! nat row = Y1 ! nat row" using q2 unfolding blkQ_def by blast
    moreover have "Y1 ! nat row = phiZ e ctx cs row" using q1 rw False unfolding blkQ_def by simp
    ultimately show ?thesis by simp
  qed
  have c: "cs \<le> ce \<longrightarrow> (\<forall>col. cs \<le> col \<and> col \<le> ce + 1 \<longrightarrow> Z2 ! nat (col + zoff) = phiZ e ctx col rs)"
    using q2 unfolding blkQ_def by simp
  have z: "ce < cs \<longrightarrow> Z2 = Z0" using q1 q2 unfolding blkQ_def by simp
  have l: "length Y2 = length Y0" "length Z2 = length Z0" using q1 q2 unfolding blkQ_def by simp_all
  show ?thesis unfolding blkQ_def using a b c d l z by simp
qed

lemma CalculateBlock_CO_correct:
  assumes "blkP e ctx 0 Zs Ze Ys Ye Y0 Z0"
    and "Ye = int (N ctx) \<or> Ze - Zs \<le> CO_BREAKPOINT"
    and "CalculateBlock_CO e ctx Z0 Zs Ze Y0 Ys Ye = (Z1, Y1)"
  shows "blkQ e ctx 0 Zs Ze Ys Ye Y0 Z0 Y1 Z1"
  using assms
proof (induction e ctx Z0 Zs Ze Y0 Ys Ye arbitrary: Z1 Y1 rule: CalculateBlock_CO.induct)
  case (1 e ctx Z_row Z_start Z_end Y_col Y_start Y_end)
  note p = "1.prems"(1) and shape = "1.prems"(2) and res = "1.prems"(3)
  have bp: "0 \<le> CO_BREAKPOINT" by (simp add: CO_BREAKPOINT_def)
  consider (cols) "CO_BREAKPOINT < Z_end - Z_start"
    | (rows) "\<not> CO_BREAKPOINT < Z_end - Z_start" "CO_BREAKPOINT < Y_end - Y_start"
    | (base) "\<not> CO_BREAKPOINT < Z_end - Z_start" "\<not> CO_BREAKPOINT < Y_end - Y_start"
    by blast
  then show ?case
  proof cases
    case cols
    define m where "m = Z_start + (Z_end - Z_start) div 2"
    have m: "Z_start \<le> m" "m < Z_end" using cols bp unfolding m_def by linarith+
    have ye: "Y_end = int (N ctx)" using shape cols by simp
    obtain Za Ya where first:
      "CalculateBlock_CO e ctx Z_row (m + 1) Z_end Y_col Y_start Y_end = (Za, Ya)"
      by (cases "CalculateBlock_CO e ctx Z_row (m + 1) Z_end Y_col Y_start Y_end") auto
    have q1: "blkQ e ctx 0 (m + 1) Z_end Y_start Y_end Y_col Z_row Ya Za"
      using "1.IH"(1)[OF cols, folded m_def, OF _ _ first] blkP_cols_right[OF p ye] m ye by simp
    have second: "CalculateBlock_CO e ctx Za Z_start m Ya Y_start Y_end = (Z1, Y1)"
      using res cols first by (subst (asm) CalculateBlock_CO.simps) (simp add: m_def[symmetric])
    have q2: "blkQ e ctx 0 Z_start m Y_start Y_end Ya Za Y1 Z1"
      using "1.IH"(2)[OF cols, folded m_def, OF refl first[symmetric] _ _ second]
        blkP_cols_left[OF p ye _ _ q1] m ye by simp
    show ?thesis using blkQ_cols[OF q1 q2] m p unfolding blkP_def by simp
  next
    case rows
    define m where "m = Y_start + (Y_end - Y_start) div 2"
    have m: "Y_start \<le> m" "m < Y_end" using rows bp unfolding m_def by linarith+
    have sh: "Z_end - Z_start \<le> CO_BREAKPOINT" using rows by simp
    obtain Za Ya where first:
      "CalculateBlock_CO e ctx Z_row Z_start Z_end Y_col (m + 1) Y_end = (Za, Ya)"
      by (cases "CalculateBlock_CO e ctx Z_row Z_start Z_end Y_col (m + 1) Y_end") auto
    have q1: "blkQ e ctx 0 Z_start Z_end (m + 1) Y_end Y_col Z_row Ya Za"
      using "1.IH"(3)[OF rows, folded m_def, OF _ _ first] blkP_rows_low[OF p m] shape sh by simp
    have second: "CalculateBlock_CO e ctx Za Z_start Z_end Ya Y_start m = (Z1, Y1)"
      using res rows first by (subst (asm) CalculateBlock_CO.simps) (simp add: m_def[symmetric])
    have q2: "blkQ e ctx 0 Z_start Z_end Y_start m Ya Za Y1 Z1"
      using "1.IH"(4)[OF rows, folded m_def, OF refl first[symmetric] _ _ second]
        blkP_rows_up[OF p m q1] sh by simp
    show ?thesis using blkQ_rows[OF q1 q2] m p unfolding blkP_def by simp
  next
    case base
    obtain Yb Zb pv pz vk where b:
      "blk e ctx 0 Z_start Z_end Y_start Y_end (Y_col, Z_row, 0, 0, 0) = (Yb, Zb, pv, pz, vk)"
      by (cases "blk e ctx 0 Z_start Z_end Y_start Y_end (Y_col, Z_row, 0, 0, 0)") auto
    have "(Z1, Y1) = (Zb, Yb)"
      using res base b by (subst (asm) CalculateBlock_CO.simps) (simp add: CO_base_blk)
    then show ?thesis using blk_correct[OF p b] by simp
  qed
qed

section \<open>The cache-oblivious and the linear-space engine compute the recurrence\<close>

lemma init_boundary_rule:
  assumes len: "length buf = n + 1" and f0: "f (int n) = 0"
    and fs: "\<And>row. 0 \<le> row \<Longrightarrow> row < int n \<Longrightarrow>
               f row = (if isBase e (seq ! nat row) then INSERTION_COST e else 0) + f (row + 1)"
  shows "length (init_boundary e seq n buf) = n + 1 \<and>
         (\<forall>row. 0 \<le> row \<and> row \<le> int n \<longrightarrow> init_boundary e seq n buf ! nat row = f row)"
  unfolding init_boundary_def
proof (rule for_down_rule[where I = "\<lambda>r b. length b = n + 1 \<and>
         (\<forall>row. r \<le> row \<and> row \<le> int n \<longrightarrow> b ! nat row = f row)"])
  show "length (buf[n := 0]) = n + 1 \<and>
        (\<forall>row. int n - 1 + 1 \<le> row \<and> row \<le> int n \<longrightarrow> buf[n := 0] ! nat row = f row)"
    using len f0 by auto
  show "0 \<le> int n - 1 + 1" by simp
  fix i t
  assume i: "0 \<le> i" "i \<le> int n - 1"
    and inv: "length t = n + 1 \<and> (\<forall>row. i + 1 \<le> row \<and> row \<le> int n \<longrightarrow> t ! nat row = f row)"
  let ?t = "t[nat i := (if isBase e (seq ! nat i) then INSERTION_COST e else 0) + t ! nat (i + 1)]"
  have nx: "t ! nat (i + 1) = f (i + 1)" using inv i by simp
  have li: "nat i < length t" using inv i by simp
  have "?t ! nat row = f row" if rw: "i \<le> row" "row \<le> int n" for row
  proof (cases "row = i")
    case True
    then show ?thesis using li nx fs[of i] i by simp
  next
    case False
    then have "nat row \<noteq> nat i" "i + 1 \<le> row" using rw i by linarith+
    then show ?thesis using inv rw by simp
  qed
  then show "length ?t = n + 1 \<and> (\<forall>row. i \<le> row \<and> row \<le> int n \<longrightarrow> ?t ! nat row = f row)"
    using inv by simp
qed

lemma init_Y_col:
  assumes "length buf = N ctx + 1"
  shows "length (init_boundary e (Y ctx) (N ctx) buf) = N ctx + 1"
    and "0 \<le> row \<Longrightarrow> row \<le> int (N ctx) \<Longrightarrow>
         init_boundary e (Y ctx) (N ctx) buf ! nat row = phiZ e ctx (int (M ctx)) row"
proof -
  have "length (init_boundary e (Y ctx) (N ctx) buf) = N ctx + 1 \<and>
         (\<forall>row. 0 \<le> row \<and> row \<le> int (N ctx) \<longrightarrow>
            init_boundary e (Y ctx) (N ctx) buf ! nat row = phiZ e ctx (int (M ctx)) row)"
    using assms by (intro init_boundary_rule) (simp_all add: phiZ_corner phiZ_right)
  then show "length (init_boundary e (Y ctx) (N ctx) buf) = N ctx + 1"
    and "0 \<le> row \<Longrightarrow> row \<le> int (N ctx) \<Longrightarrow>
         init_boundary e (Y ctx) (N ctx) buf ! nat row = phiZ e ctx (int (M ctx)) row"
    by simp_all
qed

lemma init_Z_row:
  assumes "length buf = M ctx + 1"
  shows "length (init_boundary e (X ctx) (M ctx) buf) = M ctx + 1"
    and "0 \<le> col \<Longrightarrow> col \<le> int (M ctx) \<Longrightarrow>
         init_boundary e (X ctx) (M ctx) buf ! nat col = phiZ e ctx col (int (N ctx))"
proof -
  have "length (init_boundary e (X ctx) (M ctx) buf) = M ctx + 1 \<and>
         (\<forall>col. 0 \<le> col \<and> col \<le> int (M ctx) \<longrightarrow>
            init_boundary e (X ctx) (M ctx) buf ! nat col = phiZ e ctx col (int (N ctx)))"
    using assms by (intro init_boundary_rule) (simp_all add: phiZ_corner phiZ_bottom)
  then show "length (init_boundary e (X ctx) (M ctx) buf) = M ctx + 1"
    and "0 \<le> col \<Longrightarrow> col \<le> int (M ctx) \<Longrightarrow>
         init_boundary e (X ctx) (M ctx) buf ! nat col = phiZ e ctx col (int (N ctx))"
    by simp_all
qed

text \<open>The precondition of a scan of the whole grid, from the initial column.\<close>

lemma blkP_whole:
  assumes "length buf = N ctx + 1" "length Z0 = M ctx + 1"
  shows "blkP e ctx 0 0 (int (M ctx) - 1) 0 (int (N ctx))
           (init_boundary e (Y ctx) (N ctx) buf) Z0"
  unfolding blkP_def using init_Y_col[OF assms(1), where e = e] assms(2) by simp

lemma CO_phi:
  "EditDistance_NW_Iter_CO e A lengthA B lengthB =
     phi e (subst_cost e) (orientation A lengthA B lengthB) 0 0"
proof -
  define ctx where "ctx = orientation A lengthA B lengthB"
  define Y0 where "Y0 = init_boundary e (Y ctx) (N ctx) (malloc (N ctx + 1))"
  define Z0 where "Z0 = init_boundary e (X ctx) (M ctx) (malloc (M ctx + 1))"
  obtain Z1 Y1 where r: "CalculateBlock_CO e ctx Z0 0 (int (M ctx) - 1) Y0 0 (int (N ctx)) = (Z1, Y1)"
    by (cases "CalculateBlock_CO e ctx Z0 0 (int (M ctx) - 1) Y0 0 (int (N ctx))") auto
  have lz: "length Z0 = M ctx + 1" unfolding Z0_def by (rule init_Z_row) (simp add: malloc_def)
  have p: "blkP e ctx 0 0 (int (M ctx) - 1) 0 (int (N ctx)) Y0 Z0"
    unfolding Y0_def using lz by (intro blkP_whole) (simp_all add: malloc_def)
  have "blkQ e ctx 0 0 (int (M ctx) - 1) 0 (int (N ctx)) Y0 Z0 Y1 Z1"
    using CalculateBlock_CO_correct[OF p _ r] by simp
  then have "\<forall>row. 0 \<le> row \<and> row \<le> int (N ctx) \<longrightarrow> Y1 ! nat row = phiZ e ctx 0 row"
    unfolding blkQ_def by simp
  from this[rule_format, of 0]
  have "Y1 ! 0 = phi e (subst_cost e) ctx 0 0" by (simp add: phiZ_def)
  then show ?thesis
    unfolding EditDistance_NW_Iter_CO_def Let_def ctx_def[symmetric] Y0_def[symmetric]
      Z0_def[symmetric] r by simp
qed

lemma Iter_cell_blk:
  "blk_cell e ctx zoff ce (int (N ctx)) col row (Y_col, Z_row, pv, pz, vk) =
     (fst (Iter_cell e ctx col row (Y_col, pv)), Z_row, snd (Iter_cell e ctx col row (Y_col, pv)), pz,
      fst (Iter_cell e ctx col row (Y_col, pv)) ! nat row)"
  by (simp add: blk_cell_def Iter_cell_def ManageBaseError_def min3_def Let_def)

lemma Iter_rows_blk:
  "for_down re rs (blk_cell e ctx zoff ce (int (N ctx)) col) (Y_col, Z_row, pv, pz, vk) = (Y1, Z1, pv1, pz1, vk1)
   \<Longrightarrow> for_down re rs (Iter_cell e ctx col) (Y_col, pv) = (Y1, pv1)"
  using for_down_sim[where R = "\<lambda>s t. fst s = fst t \<and> snd s = fst (snd (snd t))"
      and f = "Iter_cell e ctx col" and g = "blk_cell e ctx zoff ce (int (N ctx)) col"
      and s = "(Y_col, pv)" and t = "(Y_col, Z_row, pv, pz, vk)" and lo = rs and hi = re]
  by (auto simp: Iter_cell_blk prod_eq_iff)

lemma Iter_cols_blk:
  assumes "for_down ce cs (blk_column e ctx zoff ce rs (int (N ctx))) (Y_col, Z_row, pv, pz, vk)
             = (Y1, Z1, pv1, pz1, vk1)"
  shows "for_down ce cs (\<lambda>col. for_down (int (N ctx)) rs (Iter_cell e ctx col)) (Y_col, pv) = (Y1, pv1)"
proof -
  let ?R = "\<lambda>s t. fst s = fst t \<and> snd s = fst (snd (snd t))"
  have "?R (for_down ce cs (\<lambda>col. for_down (int (N ctx)) rs (Iter_cell e ctx col)) (Y_col, pv))
           (for_down ce cs (blk_column e ctx zoff ce rs (int (N ctx))) (Y_col, Z_row, pv, pz, vk))"
  proof (rule for_down_sim[where R = ?R])
    show "?R (Y_col, pv) (Y_col, Z_row, pv, pz, vk)" by simp
    fix i and s :: "int list \<times> int" and t :: "int list \<times> int list \<times> int \<times> int \<times> int"
    assume st: "?R s t"
    obtain Ya pa where s: "s = (Ya, pa)" by (cases s)
    obtain Za pza vka where t: "t = (Ya, Za, pa, pza, vka)" using st s by (cases t) auto
    obtain Yb Zb pb pzb vkb where
      b: "for_down (int (N ctx)) rs (blk_cell e ctx zoff ce (int (N ctx)) i) (Ya, Za, pa, pza, vka)
            = (Yb, Zb, pb, pzb, vkb)"
      by (cases "for_down (int (N ctx)) rs (blk_cell e ctx zoff ce (int (N ctx)) i) (Ya, Za, pa, pza, vka)") auto
    show "?R (for_down (int (N ctx)) rs (Iter_cell e ctx i) s)
             (blk_column e ctx zoff ce rs (int (N ctx)) i t)"
      unfolding s t blk_column_def b Iter_rows_blk[OF b] by (simp add: Let_def)
  qed
  then show ?thesis unfolding assms by (simp add: prod_eq_iff)
qed

lemma Iter_phi:
  "EditDistance_NW_Iter e A lengthA B lengthB =
     phi e (subst_cost e) (orientation A lengthA B lengthB) 0 0"
proof -
  define ctx where "ctx = orientation A lengthA B lengthB"
  define Y0 where "Y0 = init_boundary e (Y ctx) (N ctx) (malloc (N ctx + 1))"
  define Z0 where "Z0 = replicate (M ctx + 1) (0::int)"
  obtain Y1 Z1 pv1 pz1 vk1 where
    b: "blk e ctx 0 0 (int (M ctx) - 1) 0 (int (N ctx)) (Y0, Z0, 0, 0, 0) = (Y1, Z1, pv1, pz1, vk1)"
    by (cases "blk e ctx 0 0 (int (M ctx) - 1) 0 (int (N ctx)) (Y0, Z0, 0, 0, 0)") auto
  have p: "blkP e ctx 0 0 (int (M ctx) - 1) 0 (int (N ctx)) Y0 Z0"
    unfolding Y0_def by (intro blkP_whole) (simp_all add: malloc_def Z0_def)
  have "blkQ e ctx 0 0 (int (M ctx) - 1) 0 (int (N ctx)) Y0 Z0 Y1 Z1"
    by (rule blk_correct[OF p b])
  then have "\<forall>row. 0 \<le> row \<and> row \<le> int (N ctx) \<longrightarrow> Y1 ! nat row = phiZ e ctx 0 row"
    unfolding blkQ_def by simp
  from this[rule_format, of 0]
  have v: "Y1 ! 0 = phi e (subst_cost e) ctx 0 0" by (simp add: phiZ_def)
  have "for_down (int (M ctx) - 1) 0 (\<lambda>col. for_down (int (N ctx)) 0 (Iter_cell e ctx col)) (Y0, 0)
          = (Y1, pv1)"
    using b unfolding blk_def by (rule Iter_cols_blk)
  then show ?thesis
    unfolding EditDistance_NW_Iter_def Let_def ctx_def[symmetric] Y0_def[symmetric]
    using v by simp
qed

section \<open>The cache-aware blocked engine computes the recurrence\<close>

lemma CA_cell_blk:
  assumes "col = cc + cs" "row = cr + rs" "ce = cs + max_cols - 1" "re = rs + max_rows"
    "zoff = Zrl - max_cols - cs" "z_row = nzr - 1 \<longrightarrow> re = int (N ctx)"
  shows "CA_cell e ctx nzr Zrl z_row max_cols max_rows cc col cr row = blk_cell e ctx zoff ce re col row"
proof -
  have i: "cc + Zrl - max_cols = col + zoff" "cc + Zrl - max_cols + 1 = col + zoff + 1"
    "(cr = max_rows) = (row = re)" "(cc = max_cols - 1) = (col = ce)"
    using assms by auto
  show ?thesis
    unfolding CA_cell_def blk_cell_def i using assms(6)
    by (auto simp: ManageBaseError_def fun_eq_iff Let_def)
qed

lemma CA_column_blk:
  assumes cs: "cs = (if z_col > 0 then (z_col - 1) * Z + int (M ctx) - (nzc - 1) * Z else 0)"
    and rs: "rs = (if z_row > 0 then (z_row - 1) * Z + int (N ctx) - (nzr - 1) * Z else 0)"
    and g: "ce = cs + max_cols - 1" "re = rs + max_rows" "zoff = Zrl - max_cols - cs"
      "z_row = nzr - 1 \<longrightarrow> re = int (N ctx)"
  shows "CA_column e ctx Z nzr nzc Zrl z_col z_row max_cols max_rows cc s =
           blk_column e ctx zoff ce rs re (cc + cs) s"
proof -
  define col where "col = cc + cs"
  have c: "(if z_col > 0 then cc + (z_col - 1) * Z + int (M ctx) - (nzc - 1) * Z else cc) = col"
    unfolding col_def cs by simp
  have r: "(if z_row > 0 then cr + (z_row - 1) * Z + int (N ctx) - (nzr - 1) * Z else cr) = cr + rs" for cr
    unfolding rs by simp
  have e: "max_rows + rs = re" "0 + rs = rs" using g by simp_all
  have "for_down max_rows 0
          (\<lambda>cr. CA_cell e ctx nzr Zrl z_row max_cols max_rows cc col cr (cr + rs)) s
        = for_down max_rows 0 (\<lambda>cr. blk_cell e ctx zoff ce re col (cr + rs)) s"
    by (rule for_down_cong) (simp add: CA_cell_blk[OF col_def refl g])
  also have "\<dots> = for_down (max_rows + rs) (0 + rs) (blk_cell e ctx zoff ce re col) s"
    by (rule for_down_shift)
  finally have rows: "for_down max_rows 0
          (\<lambda>cr. CA_cell e ctx nzr Zrl z_row max_cols max_rows cc col cr (cr + rs)) s
        = for_down re rs (blk_cell e ctx zoff ce re col) s"
    unfolding e .
  have i: "cc + Zrl - max_cols = col + zoff" "(cc = max_cols - 1) = (col = ce)" "Zrl = ce + 1 + zoff"
    using g col_def by auto
  show ?thesis
    unfolding CA_column_def blk_column_def Let_def c r rows col_def[symmetric] i[symmetric]
    by (simp add: split_def)
qed

lemma CA_tile_blk:
  assumes cs: "cs = (if z_col > 0 then (z_col - 1) * Z + int (M ctx) - (nzc - 1) * Z else 0)"
    and rs: "rs = (if z_row > 0 then (z_row - 1) * Z + int (N ctx) - (nzr - 1) * Z else 0)"
    and mr: "max_rows = (if int (N ctx) - (nzr - 1 - z_row) * Z > Z then Z
                      else int (N ctx) - (nzr - 1 - z_row) * Z) - (if z_row \<noteq> nzr - 1 then 1 else 0)"
    and g: "ce = cs + max_cols - 1" "re = rs + max_rows" "zoff = Zrl - max_cols - cs"
      "z_row = nzr - 1 \<longrightarrow> re = int (N ctx)"
  shows "CA_tile e ctx Z nzr nzc Zrl z_col max_cols z_row s = blk e ctx zoff cs ce rs re s"
proof -
  have m: "(let max_rows = (if int (N ctx) - (nzr - 1 - z_row) * Z > Z then Z
                      else int (N ctx) - (nzr - 1 - z_row) * Z);
          max_rows = (if z_row \<noteq> nzr - 1 then max_rows - 1 else max_rows) in f max_rows) = f max_rows" for f
    unfolding mr Let_def by simp
  have e: "max_cols - 1 + cs = ce" "0 + cs = cs" using g by simp_all
  have "for_down (max_cols - 1) 0 (CA_column e ctx Z nzr nzc Zrl z_col z_row max_cols max_rows) s
        = for_down (max_cols - 1) 0 (\<lambda>cc. blk_column e ctx zoff ce rs re (cc + cs)) s"
    by (rule for_down_cong) (simp add: CA_column_blk[OF cs rs g])
  also have "\<dots> = for_down (max_cols - 1 + cs) (0 + cs) (blk_column e ctx zoff ce rs re) s"
    by (rule for_down_shift)
  finally have "for_down (max_cols - 1) 0 (CA_column e ctx Z nzr nzc Zrl z_col z_row max_cols max_rows) s
        = for_down ce cs (blk_column e ctx zoff ce rs re) s"
    unfolding e .
  then show ?thesis
    unfolding CA_tile_def m blk_def .
qed

lemma tile_products:
  fixes Z n z :: int
  assumes Z: "0 < Z" and n: "0 \<le> n" and z: "0 \<le> z" "z \<le> n div Z"
  defines "p \<equiv> z * Z" and "pq \<equiv> (n div Z) * Z" and "r \<equiv> n mod Z"
  shows "n = r + pq" "0 \<le> r" "r < Z" "p \<le> pq" "0 \<le> p"
    and "0 < z \<longrightarrow> Z \<le> p" "z = 0 \<longrightarrow> p = 0" "z = n div Z \<longrightarrow> p = pq" "z < n div Z \<longrightarrow> p + Z \<le> pq"
proof -
  show "n = r + pq" unfolding r_def pq_def by simp
  show "0 \<le> r" "r < Z" unfolding r_def using Z by simp_all
  show "p \<le> pq" unfolding p_def pq_def using z Z by (intro mult_right_mono) simp_all
  show "0 \<le> p" unfolding p_def using z Z by simp
  show "0 < z \<longrightarrow> Z \<le> p"
  proof
    assume "0 < z"
    then have "1 * Z \<le> z * Z" using Z by (intro mult_right_mono) simp_all
    then show "Z \<le> p" unfolding p_def by simp
  qed
  show "z = 0 \<longrightarrow> p = 0" unfolding p_def by simp
  show "z = n div Z \<longrightarrow> p = pq" unfolding p_def pq_def by simp
  show "z < n div Z \<longrightarrow> p + Z \<le> pq"
  proof
    assume "z < n div Z"
    then have "(z + 1) * Z \<le> (n div Z) * Z" using Z by (intro mult_right_mono) simp_all
    then show "p + Z \<le> pq" unfolding p_def pq_def by (simp add: algebra_simps)
  qed
qed

lemma row_geometry:
  assumes Z: "0 < Z" and z: "0 \<le> z" "z \<le> int (N ctx) div Z" and nzr: "nzr = int (N ctx) div Z + 1"
  shows "(if z > 0 then (z - 1) * Z + int (N ctx) - (nzr - 1) * Z else 0) = row_low ctx Z z"
    and "(if int (N ctx) - (nzr - 1 - z) * Z > Z then Z else int (N ctx) - (nzr - 1 - z) * Z)
           - (if z \<noteq> nzr - 1 then 1 else 0) = row_low ctx Z (z + 1) - 1 - row_low ctx Z z"
    and "z = nzr - 1 \<longrightarrow> row_low ctx Z (z + 1) - 1 = int (N ctx)"
    and "0 \<le> row_low ctx Z z" "row_low ctx Z z \<le> row_low ctx Z (z + 1)"
      "row_low ctx Z (z + 1) - 1 \<le> int (N ctx)"
    and "row_low ctx Z z = row_low ctx Z (z + 1) \<longrightarrow> row_low ctx Z z = 0"
proof -
  define n where "n = int (N ctx)"
  define q where "q = n div Z"
  define r where "r = n mod Z"
  define p where "p = z * Z"
  define pq where "pq = q * Z"
  have n0: "0 \<le> n" by (simp add: n_def)
  have zq: "z \<le> q" using z by (simp add: q_def n_def)
  note f = tile_products[OF Z n0 z(1) zq[unfolded q_def], folded q_def, folded p_def pq_def r_def]
  have nq: "nzr - 1 = q" unfolding nzr q_def n_def by simp
  have e: "(z - 1) * Z = p - Z" "(nzr - 1) * Z = pq" "(nzr - 1 - z) * Z = pq - p"
    "(q - z) * Z = pq - p" "q * Z = pq"
    unfolding nq p_def pq_def by (simp_all add: algebra_simps)
  have rl: "row_low ctx Z z = (if z > 0 then r + (p - Z) else 0)"
    "row_low ctx Z (z + 1) = (if z + 1 > q then n + 1 else r + p)"
    unfolding row_low_def n_def[symmetric] q_def[symmetric] r_def[symmetric] using zq z(1)
    by (simp_all add: p_def algebra_simps)
  show "(if z > 0 then (z - 1) * Z + int (N ctx) - (nzr - 1) * Z else 0) = row_low ctx Z z"
    unfolding rl e n_def[symmetric] using f by simp
  show "(if int (N ctx) - (nzr - 1 - z) * Z > Z then Z else int (N ctx) - (nzr - 1 - z) * Z)
           - (if z \<noteq> nzr - 1 then 1 else 0) = row_low ctx Z (z + 1) - 1 - row_low ctx Z z"
    unfolding rl e nq n_def[symmetric] using f zq z(1) by (cases "z = q"; cases "0 < z") simp_all
  show "z = nzr - 1 \<longrightarrow> row_low ctx Z (z + 1) - 1 = int (N ctx)"
    unfolding rl nq n_def[symmetric] by simp
  show "0 \<le> row_low ctx Z z" unfolding rl using f by simp
  show "row_low ctx Z z \<le> row_low ctx Z (z + 1)"
    unfolding rl using f Z zq by (cases "z = q") auto
  show "row_low ctx Z (z + 1) - 1 \<le> int (N ctx)"
    unfolding rl n_def[symmetric] using f zq by (cases "z = q") auto
  show "row_low ctx Z z = row_low ctx Z (z + 1) \<longrightarrow> row_low ctx Z z = 0"
    unfolding rl using f Z zq by (cases "z = q") auto
qed

lemma col_geometry:
  assumes Z: "0 < Z" and z: "0 \<le> z" "z \<le> int (M ctx) div Z" and nzc: "nzc = int (M ctx) div Z + 1"
    and zl: "Zrl = (if Z > int (M ctx) then int (M ctx) else Z)"
  shows "(if z > 0 then (z - 1) * Z + int (M ctx) - (nzc - 1) * Z else 0) = col_low ctx Z z"
    and "(if int (M ctx) - (nzc - 1 - z) * Z > Z then Z else int (M ctx) - (nzc - 1 - z) * Z)
           = col_low ctx Z (z + 1) - col_low ctx Z z"
    and "0 \<le> col_low ctx Z z" "col_low ctx Z z \<le> col_low ctx Z (z + 1)"
      "col_low ctx Z (z + 1) \<le> int (M ctx)"
    and "col_low ctx Z (z + 1) - col_low ctx Z z \<le> Zrl" "0 \<le> Zrl"
    and "z = nzc - 1 \<longrightarrow> col_low ctx Z (z + 1) = int (M ctx)"
proof -
  define n where "n = int (M ctx)"
  define q where "q = n div Z"
  define r where "r = n mod Z"
  define p where "p = z * Z"
  define pq where "pq = q * Z"
  have n0: "0 \<le> n" by (simp add: n_def)
  have zq: "z \<le> q" using z by (simp add: q_def n_def)
  note f = tile_products[OF Z n0 z(1) zq[unfolded q_def], folded q_def, folded p_def pq_def r_def]
  have nq: "nzc - 1 = q" unfolding nzc q_def n_def by simp
  have e: "(z - 1) * Z = p - Z" "(nzc - 1) * Z = pq" "(nzc - 1 - z) * Z = pq - p"
    "(q - z) * Z = pq - p" "q * Z = pq"
    unfolding nq p_def pq_def by (simp_all add: algebra_simps)
  have rl: "col_low ctx Z z = (if z > 0 then r + (p - Z) else 0)"
    "col_low ctx Z (z + 1) = r + p"
    unfolding col_low_def n_def[symmetric] q_def[symmetric] r_def[symmetric] using z(1)
    by (simp_all add: p_def algebra_simps)
  show "(if z > 0 then (z - 1) * Z + int (M ctx) - (nzc - 1) * Z else 0) = col_low ctx Z z"
    unfolding rl e n_def[symmetric] using f by simp
  show "(if int (M ctx) - (nzc - 1 - z) * Z > Z then Z else int (M ctx) - (nzc - 1 - z) * Z)
           = col_low ctx Z (z + 1) - col_low ctx Z z"
    unfolding rl e nq n_def[symmetric] using f zq z(1) by (cases "0 < z") simp_all
  show "0 \<le> col_low ctx Z z" unfolding rl using f by simp
  show "col_low ctx Z z \<le> col_low ctx Z (z + 1)" unfolding rl using f Z by auto
  show "col_low ctx Z (z + 1) \<le> int (M ctx)" unfolding rl n_def[symmetric] using f by simp
  show "col_low ctx Z (z + 1) - col_low ctx Z z \<le> Zrl"
    unfolding rl zl n_def[symmetric] using f Z z(1) zq by (cases "0 < z") auto
  show "0 \<le> Zrl" unfolding zl using Z by simp
  show "z = nzc - 1 \<longrightarrow> col_low ctx Z (z + 1) = int (M ctx)"
    unfolding rl nq n_def[symmetric] using f by simp
qed

lemma blk_empty_rows:
  assumes "re < rs" "cs \<le> ce + 1"
    and "blk e ctx zoff cs ce rs re (Y0, Z0, pv, pz, vk) = (Y1, Z1, pv1, pz1, vk1)"
  shows "Y1 = Y0" "length Z1 = length Z0"
proof -
  let ?I = "\<lambda>(k::int) (s :: int list \<times> int list \<times> int \<times> int \<times> int).
              fst s = Y0 \<and> length (fst (snd s)) = length Z0"
  have "?I cs (blk e ctx zoff cs ce rs re (Y0, Z0, pv, pz, vk))"
    unfolding blk_def
  proof (rule for_down_rule[where I = ?I])
    show "?I (ce + 1) (Y0, Z0, pv, pz, vk)" by simp
    show "cs \<le> ce + 1" by (rule assms)
    fix i t
    assume "?I (i + 1) t"
    then show "?I i (blk_column e ctx zoff ce rs re i t)"
      using assms(1) by (cases t) (simp add: blk_column_def Let_def)
  qed
  then show "Y1 = Y0" "length Z1 = length Z0" unfolding assms(3) by simp_all
qed

lemma CA_tile_step:
  assumes Z: "0 < Z" and zc: "0 \<le> z_col" "z_col \<le> int (M ctx) div Z"
    and zr: "0 \<le> z_row" "z_row \<le> int (N ctx) div Z"
    and nz: "nzr = int (N ctx) div Z + 1" "nzc = int (M ctx) div Z + 1"
    and zl: "Zrl = (if Z > int (M ctx) then int (M ctx) else Z)"
    and geo: "cs = col_low ctx Z z_col" "ce = col_low ctx Z (z_col + 1) - 1"
      "max_cols = ce + 1 - cs" "zoff = Zrl - (ce + 1)"
    and ne: "cs \<le> ce"
    and lz: "length Z0 = nat (Zrl + 1)"
    and inv: "stripI e ctx Z zoff cs ce Z0 (z_row + 1) s"
  shows "stripI e ctx Z zoff cs ce Z0 z_row (CA_tile e ctx Z nzr nzc Zrl z_col max_cols z_row s)"
proof -
  define rs where "rs = row_low ctx Z z_row"
  define re where "re = row_low ctx Z (z_row + 1) - 1"
  note rg = row_geometry[OF Z zr nz(1), folded rs_def re_def]
  note cg = col_geometry[OF Z zc nz(2) zl, folded geo(1)]
  have r1: "row_low ctx Z (z_row + 1) = re + 1" by (simp add: re_def)
  have c1: "col_low ctx Z (z_col + 1) = ce + 1" by (simp add: geo)
  have tile: "CA_tile e ctx Z nzr nzc Zrl z_col max_cols z_row s = blk e ctx zoff cs ce rs re s"
  proof (rule CA_tile_blk)
    show "cs = (if 0 < z_col then (z_col - 1) * Z + int (M ctx) - (nzc - 1) * Z else 0)"
      using cg(1) by simp
    show "rs = (if 0 < z_row then (z_row - 1) * Z + int (N ctx) - (nzr - 1) * Z else 0)"
      using rg(1) by simp
    show "re - rs = (if Z < int (N ctx) - (nzr - 1 - z_row) * Z then Z
               else int (N ctx) - (nzr - 1 - z_row) * Z) - (if z_row \<noteq> nzr - 1 then 1 else 0)"
      using rg(2) unfolding r1 by simp
    show "ce = cs + max_cols - 1" "re = rs + (re - rs)" "zoff = Zrl - max_cols - cs"
      using geo by simp_all
    show "z_row = nzr - 1 \<longrightarrow> re = int (N ctx)" using rg(3) unfolding r1 by simp
  qed
  obtain Y_col Z_row pv pz vk where s: "s = (Y_col, Z_row, pv, pz, vk)" by (cases s) auto
  obtain Y1 Z1 pv1 pz1 vk1 where b: "blk e ctx zoff cs ce rs re (Y_col, Z_row, pv, pz, vk) = (Y1, Z1, pv1, pz1, vk1)"
    by (cases "blk e ctx zoff cs ce rs re (Y_col, Z_row, pv, pz, vk)") auto
  have t2: "CA_tile e ctx Z nzr nzc Zrl z_col max_cols z_row s = (Y1, Z1, pv1, pz1, vk1)"
    using tile b s by simp
  have ly: "length Y_col = N ctx + 1" and lzr: "length Z_row = length Z0"
    and hi: "\<forall>row. re + 1 \<le> row \<and> row \<le> int (N ctx) \<longrightarrow> Y_col ! nat row = phiZ e ctx cs row"
    and lo: "\<forall>row. 0 \<le> row \<and> row < re + 1 \<longrightarrow> Y_col ! nat row = phiZ e ctx (ce + 1) row"
    and zz: "0 < re + 1 \<and> re + 1 \<le> int (N ctx) \<longrightarrow>
           (\<forall>col. cs \<le> col \<and> col \<le> ce + 1 \<longrightarrow> Z_row ! nat (col + zoff) = phiZ e ctx col (re + 1))"
    using inv unfolding stripI_def s r1 by auto
  show ?thesis
  proof (cases "rs \<le> re")
    case True
    have p: "blkP e ctx zoff cs ce rs re Y_col Z_row"
      unfolding blkP_def using True rg(4,6) cg(3,5,6) ne ly lzr lz lo zz geo(4) r1 c1 by auto
    have q: "blkQ e ctx zoff cs ce rs re Y_col Z_row Y1 Z1" by (rule blk_correct[OF p b])
    have a1: "Y1 ! nat row = phiZ e ctx cs row" if rw: "rs \<le> row" "row \<le> int (N ctx)" for row
    proof (cases "row \<le> re")
      case True
      then show ?thesis using q rw unfolding blkQ_def by simp
    next
      case False
      then have "\<not> (rs \<le> int (nat row) \<and> int (nat row) \<le> re)" using rw rg(4) by linarith
      then have "Y1 ! nat row = Y_col ! nat row" using q unfolding blkQ_def by blast
      then show ?thesis using hi False rw by simp
    qed
    have a2: "Y1 ! nat row = phiZ e ctx (ce + 1) row" if rw: "0 \<le> row" "row < rs" for row
    proof -
      have "\<not> (rs \<le> int (nat row) \<and> int (nat row) \<le> re)" using rw by linarith
      then have "Y1 ! nat row = Y_col ! nat row" using q unfolding blkQ_def by blast
      then show ?thesis using lo rw True by simp
    qed
    have a3: "\<forall>col. cs \<le> col \<and> col \<le> ce + 1 \<longrightarrow> Z1 ! nat (col + zoff) = phiZ e ctx col rs"
      using q ne unfolding blkQ_def by simp
    have l: "length Y1 = N ctx + 1" "length Z1 = length Z0" using q ly lzr unfolding blkQ_def by simp_all
    show ?thesis unfolding t2 stripI_def rs_def[symmetric] using a1 a2 a3 l by simp
  next
    case False
    then have e: "Y1 = Y_col" "length Z1 = length Z_row"
      using blk_empty_rows[OF _ _ b] ne by simp_all
    have z0: "rs = 0" "re + 1 = 0" using False rg(5,7) unfolding r1 by linarith+
    show ?thesis unfolding t2 stripI_def rs_def[symmetric] using e ly lzr hi z0 by simp
  qed
qed

lemma CA_strip_correct:
  assumes Z: "0 < Z" and zc: "0 \<le> z_col" "z_col \<le> int (M ctx) div Z"
    and nz: "nzr = int (N ctx) div Z + 1" "nzc = int (M ctx) div Z + 1"
    and zl: "Zrl = (if Z > int (M ctx) then int (M ctx) else Z)"
    and len: "length Y0 = N ctx + 1" "length Z0 = nat (Zrl + 1)"
    and pre: "\<forall>row. 0 \<le> row \<and> row \<le> int (N ctx) \<longrightarrow>
                Y0 ! nat row = phiZ e ctx (col_low ctx Z (z_col + 1)) row"
    and res: "CA_strip e ctx Z nzr nzc Zrl z_col (Y0, Z0, pv, pz, vk) = (Y1, Z1, pv1, pz1, vk1)"
  shows "length Y1 = N ctx + 1" "length Z1 = nat (Zrl + 1)"
    and "\<forall>row. 0 \<le> row \<and> row \<le> int (N ctx) \<longrightarrow> Y1 ! nat row = phiZ e ctx (col_low ctx Z z_col) row"
proof -
  define cs where "cs = col_low ctx Z z_col"
  define ce where "ce = col_low ctx Z (z_col + 1) - 1"
  define max_cols where "max_cols = ce + 1 - cs"
  define zoff where "zoff = Zrl - (ce + 1)"
  note cg = col_geometry[OF Z zc nz(2) zl, folded cs_def]
  have c1: "col_low ctx Z (z_col + 1) = ce + 1" by (simp add: ce_def)
  have mc: "(if int (M ctx) - (nzc - 1 - z_col) * Z > Z then Z
             else int (M ctx) - (nzc - 1 - z_col) * Z) = max_cols"
    using cg(2) unfolding max_cols_def c1 by simp
  have strip: "CA_strip e ctx Z nzr nzc Zrl z_col (Y0, Z0, pv, pz, vk) =
      for_down (nzr - 1) 0 (CA_tile e ctx Z nzr nzc Zrl z_col max_cols) (Y0, Z0, pv, pz, vk)"
    unfolding CA_strip_def Let_def mc ..
  have q0: "0 \<le> int (N ctx) div Z" using Z by (simp add: pos_imp_zdiv_nonneg_iff)
  have "length Y1 = N ctx + 1 \<and> length Z1 = nat (Zrl + 1) \<and>
        (\<forall>row. 0 \<le> row \<and> row \<le> int (N ctx) \<longrightarrow> Y1 ! nat row = phiZ e ctx cs row)"
  proof (cases "cs \<le> ce")
    case True
    have "stripI e ctx Z zoff cs ce Z0 0
            (for_down (nzr - 1) 0 (CA_tile e ctx Z nzr nzc Zrl z_col max_cols) (Y0, Z0, pv, pz, vk))"
    proof (rule for_down_rule[where I = "stripI e ctx Z zoff cs ce Z0"])
      have "row_low ctx Z (nzr - 1 + 1) = int (N ctx) + 1" unfolding nz row_low_def by simp
      then show "stripI e ctx Z zoff cs ce Z0 (nzr - 1 + 1) (Y0, Z0, pv, pz, vk)"
        unfolding stripI_def using len pre c1 by simp
      show "0 \<le> nzr - 1 + 1" unfolding nz using q0 by simp
      fix i t
      assume i: "0 \<le> i" "i \<le> nzr - 1" and inv: "stripI e ctx Z zoff cs ce Z0 (i + 1) t"
      have "i \<le> int (N ctx) div Z" using i nz by simp
      then show "stripI e ctx Z zoff cs ce Z0 i (CA_tile e ctx Z nzr nzc Zrl z_col max_cols i t)"
        using Z zc i(1) nz zl cs_def ce_def max_cols_def zoff_def True len(2) inv
        by (intro CA_tile_step)
    qed
    moreover have "row_low ctx Z 0 = 0" unfolding row_low_def using q0 by simp
    ultimately show ?thesis unfolding strip[symmetric] res stripI_def using len by simp
  next
    case False
    then have m0: "max_cols - 1 < 0" unfolding max_cols_def by simp
    have id: "CA_tile e ctx Z nzr nzc Zrl z_col max_cols i t = t" for i t
      unfolding CA_tile_def Let_def using m0 by simp
    have "for_down (nzr - 1) 0 (CA_tile e ctx Z nzr nzc Zrl z_col max_cols) (Y0, Z0, pv, pz, vk)
           = (Y0, Z0, pv, pz, vk)"
    proof (rule for_down_rule[where I = "\<lambda>i t. t = (Y0, Z0, pv, pz, vk)"])
      show "0 \<le> nzr - 1 + 1" unfolding nz using q0 by simp
    qed (simp_all add: id)
    then have "Y1 = Y0" "Z1 = Z0" using res strip by simp_all
    moreover have "cs = ce + 1" using False cg(4) unfolding c1 by simp
    ultimately show ?thesis using len pre c1 by simp
  qed
  then show "length Y1 = N ctx + 1" "length Z1 = nat (Zrl + 1)"
    and "\<forall>row. 0 \<le> row \<and> row \<le> int (N ctx) \<longrightarrow> Y1 ! nat row = phiZ e ctx (col_low ctx Z z_col) row"
    unfolding cs_def by simp_all
qed

lemma CA_scan_correct:
  assumes Z: "0 < Z" and len: "length Y0 = N ctx + 1"
    and pre: "\<forall>row. 0 \<le> row \<and> row \<le> int (N ctx) \<longrightarrow> Y0 ! nat row = phiZ e ctx (int (M ctx)) row"
  shows "CA_scan e ctx Z Y0 = phiZ e ctx 0 0"
proof -
  define nzr where "nzr = int (N ctx) div Z + 1"
  define nzc where "nzc = int (M ctx) div Z + 1"
  define Zrl where "Zrl = (if Z > int (M ctx) then int (M ctx) else Z)"
  define Z0 where "Z0 = malloc (nat (Zrl + 1))"
  let ?K = "\<lambda>z (s :: int list \<times> int list \<times> int \<times> int \<times> int).
     length (fst s) = N ctx + 1 \<and> length (fst (snd s)) = nat (Zrl + 1) \<and>
     (\<forall>row. 0 \<le> row \<and> row \<le> int (N ctx) \<longrightarrow> fst s ! nat row = phiZ e ctx (col_low ctx Z z) row)"
  have q0: "0 \<le> int (M ctx) div Z" using Z by (simp add: pos_imp_zdiv_nonneg_iff)
  have top: "col_low ctx Z (nzc - 1 + 1) = int (M ctx)"
    using col_geometry(8)[OF Z q0 _ nzc_def Zrl_def] by (simp add: nzc_def)
  have "?K 0 (for_down (nzc - 1) 0 (CA_strip e ctx Z nzr nzc Zrl) (Y0, Z0, 0, 0, 0))"
  proof (rule for_down_rule[where I = ?K])
    show "?K (nzc - 1 + 1) (Y0, Z0, 0, 0, 0)"
      unfolding top using len pre by (simp add: Z0_def malloc_def)
    show "0 \<le> nzc - 1 + 1" unfolding nzc_def using q0 by simp
    fix i t
    assume i: "0 \<le> i" "i \<le> nzc - 1" and inv: "?K (i + 1) t"
    obtain Ya Za pa pza vka where t: "t = (Ya, Za, pa, pza, vka)" by (cases t) auto
    obtain Yb Zb pb pzb vkb where
      r: "CA_strip e ctx Z nzr nzc Zrl i (Ya, Za, pa, pza, vka) = (Yb, Zb, pb, pzb, vkb)"
      by (cases "CA_strip e ctx Z nzr nzc Zrl i (Ya, Za, pa, pza, vka)") auto
    have iq: "i \<le> int (M ctx) div Z" using i by (simp add: nzc_def)
    show "?K i (CA_strip e ctx Z nzr nzc Zrl i t)"
      unfolding t r using CA_strip_correct[OF Z i(1) iq nzr_def nzc_def Zrl_def _ _ _ r] inv
      unfolding t by simp
  qed
  moreover have "col_low ctx Z 0 = 0" by (simp add: col_low_def)
  ultimately have
    "\<forall>row. 0 \<le> row \<and> row \<le> int (N ctx) \<longrightarrow>
       fst (for_down (nzc - 1) 0 (CA_strip e ctx Z nzr nzc Zrl) (Y0, Z0, 0, 0, 0)) ! nat row
         = phiZ e ctx 0 row"
    by simp
  from this[rule_format, of 0]
  show ?thesis
    unfolding CA_scan_def Let_def nzr_def[symmetric] nzc_def[symmetric] Zrl_def[symmetric]
      Z0_def[symmetric]
    by (simp add: split_def)
qed

lemma CA_phi:
  "EditDistance_NW_Iter_CA e A lengthA B lengthB =
     phi e (subst_cost e) (orientation A lengthA B lengthB) 0 0"
proof -
  define ctx where "ctx = orientation A lengthA B lengthB"
  have "CA_scan e ctx 100 (init_boundary e (Y ctx) (N ctx) (malloc (N ctx + 1))) = phiZ e ctx 0 0"
    using init_Y_col[where buf = "malloc (N ctx + 1)" and ctx = ctx and e = e]
    by (intro CA_scan_correct) (simp_all add: malloc_def)
  then show ?thesis
    unfolding EditDistance_NW_Iter_CA_def Let_def ctx_def[symmetric] by (simp add: phiZ_def)
qed

section \<open>The recurrence over the lists of remaining symbols\<close>

lemma seg_Nil [simp]: "n \<le> i \<Longrightarrow> seg s i n = []"
  by (simp add: seg_def)

lemma seg_Cons: "i < n \<Longrightarrow> seg s i n = s ! i # seg s (i + 1) n"
  by (simp add: seg_def upt_conv_Cons)


lemma length_seg [simp]: "length (seg s i n) = n - i"
  by (simp add: seg_def)

lemma set_seg: "set (seg s 0 n) = {s ! k | k. k < n}"
  by (auto simp: seg_def)

lemma phi_unfold:
  "i < M c \<Longrightarrow> j < N c \<Longrightarrow> phi e d c i j =
     (if \<not> isBase e (X c ! i) then phi e d c (i + 1) j
      else if \<not> isBase e (Y c ! j) then phi e d c i (j + 1)
      else min (d (X c ! i) (Y c ! j) + phi e d c (i + 1) (j + 1))
               (min (INSERTION_COST e + phi e d c (i + 1) j)
                    (INSERTION_COST e + phi e d c i (j + 1))))"
  by (subst phi.simps) simp

lemma ed_unfold:
  "i < M c \<Longrightarrow> j < N c \<Longrightarrow> ed e d (seg (X c) i (M c)) (seg (Y c) j (N c)) =
     (if \<not> isBase e (X c ! i) then ed e d (seg (X c) (i + 1) (M c)) (seg (Y c) j (N c))
      else if \<not> isBase e (Y c ! j) then ed e d (seg (X c) i (M c)) (seg (Y c) (j + 1) (N c))
      else min (d (X c ! i) (Y c ! j) + ed e d (seg (X c) (i + 1) (M c)) (seg (Y c) (j + 1) (N c)))
               (min (INSERTION_COST e + ed e d (seg (X c) (i + 1) (M c)) (seg (Y c) j (N c)))
                    (INSERTION_COST e + ed e d (seg (X c) i (M c)) (seg (Y c) (j + 1) (N c)))))"
proof -
  assume a: "i < M c" "j < N c"
  have x: "seg (X c) i (M c) = X c ! i # seg (X c) (i + 1) (M c)" using a by (intro seg_Cons)
  have y: "seg (Y c) j (N c) = Y c ! j # seg (Y c) (j + 1) (N c)" using a by (intro seg_Cons)
  show ?thesis unfolding x y by simp
qed

lemma phi_ed:
  "phi e d c i j = ed e d (seg (X c) i (M c)) (seg (Y c) j (N c))"
proof (induction e d c i j rule: phi.induct)
  case (1 e d c i j)
  consider (a) "M c \<le> i" "N c \<le> j" | (b) "M c \<le> i" "j < N c" | (c) "i < M c" "N c \<le> j"
    | (d) "i < M c" "j < N c" by linarith
  then show ?case
  proof cases
    case a
    then show ?thesis by (subst phi.simps) simp
  next
    case b
    then show ?thesis using "1.IH"(1) by (subst phi.simps) (simp add: seg_Cons[of j])
  next
    case c
    then show ?thesis using "1.IH"(2) by (subst phi.simps) (simp add: seg_Cons[of i])
  next
    case d
    have n: "\<not> M c \<le> i" "\<not> N c \<le> j" using d by simp_all
    show ?thesis
    proof (cases "isBase e (X c ! i)")
      case False
      then show ?thesis using "1.IH"(3)[OF n] unfolding phi_unfold[OF d] ed_unfold[OF d] by simp
    next
      case bx: True
      show ?thesis
      proof (cases "isBase e (Y c ! j)")
        case False
        then show ?thesis using bx "1.IH"(4)[OF n] unfolding phi_unfold[OF d] ed_unfold[OF d] by simp
      next
        case True
        then show ?thesis using bx "1.IH"(5-7)[OF n]
          unfolding phi_unfold[OF d] ed_unfold[OF d] by simp
      qed
    qed
  qed
qed

lemma ed_filter: "ed e d xs ys = ed e d (filter (isBase e) xs) (filter (isBase e) ys)"
  by (induction e d xs ys rule: ed.induct) simp_all

lemma ed_sym_bases:
  assumes "\<forall>x\<in>set xs. isBase e x" "\<forall>y\<in>set ys. isBase e y"
    and "\<forall>x\<in>set xs. \<forall>y\<in>set ys. d x y = d' y x"
  shows "ed e d xs ys = ed e d' ys xs"
  using assms
proof (induction e d xs ys rule: ed.induct)
  case (1 e d)
  show ?case by simp
next
  case (2 e d y ys)
  then show ?case by (cases ys) simp_all
next
  case (3 e d x xs)
  then show ?case by (cases xs) simp_all
next
  case (4 e d x xs y ys)
  have "ed e d xs ys = ed e d' ys xs" "ed e d xs (y # ys) = ed e d' (y # ys) xs"
    "ed e d (x # xs) ys = ed e d' ys (x # xs)" "d x y = d' y x"
    using 4 by simp_all
  then show ?case using "4.prems"(1,2) by (simp add: min.commute min.left_commute)
qed

lemma ed_sym:
  assumes "\<forall>x\<in>set xs. \<forall>y\<in>set ys. isBase e x \<longrightarrow> isBase e y \<longrightarrow> d x y = d' y x"
  shows "ed e d xs ys = ed e d' ys xs"
proof -
  have "ed e d (filter (isBase e) xs) (filter (isBase e) ys)
        = ed e d' (filter (isBase e) ys) (filter (isBase e) xs)"
    using assms by (intro ed_sym_bases) auto
  then show ?thesis using ed_filter[of e d xs ys] ed_filter[of e d' ys xs] by simp
qed







section \<open>The claims about the four engines\<close>





lemma dist_ed:
  "phi e (subst_cost e) (orientation A lengthA B lengthB) 0 0 =
     (if lengthB \<le> lengthA
      then ed e (subst_cost e) (seg A 0 lengthA) (seg B 0 lengthB)
      else ed e (subst_cost e) (seg B 0 lengthB) (seg A 0 lengthA))"
  by (simp add: phi_ed orientation_def)






lemma charge_symmetric_ed:
  "charge_symmetric e xs ys \<Longrightarrow> ed e (subst_cost e) xs ys = ed e (subst_cost e) ys xs"
  unfolding charge_symmetric_def by (rule ed_sym)




text \<open>
  Claim C4, as amended. Swapping the two sequences and their lengths does not
  change the distance any engine returns when the two lengths differ, or when
  the diagonal charge is symmetric on the bases of the two sequences (as it is
  when no base is the wildcard and the test for same bases is symmetric).
\<close>

theorem swap_keeps_distance:
  assumes "lengthA \<noteq> lengthB \<or> charge_symmetric e (seg A 0 lengthA) (seg B 0 lengthB)"
  shows "EditDistance_NW_Rec e A lengthA B lengthB = EditDistance_NW_Rec e B lengthB A lengthA \<and>
         EditDistance_NW_Iter e A lengthA B lengthB = EditDistance_NW_Iter e B lengthB A lengthA \<and>
         EditDistance_NW_Iter_CA e A lengthA B lengthB = EditDistance_NW_Iter_CA e B lengthB A lengthA \<and>
         EditDistance_NW_Iter_CO e A lengthA B lengthB = EditDistance_NW_Iter_CO e B lengthB A lengthA"
proof -
  have "phi e (subst_cost e) (orientation A lengthA B lengthB) 0 0 =
        phi e (subst_cost e) (orientation B lengthB A lengthA) 0 0"
  proof (cases "lengthA = lengthB")
    case True
    then have "charge_symmetric e (seg A 0 lengthA) (seg B 0 lengthB)" using assms by simp
    from charge_symmetric_ed[OF this] show ?thesis using True unfolding dist_ed by simp
  next
    case False
    then show ?thesis unfolding dist_ed by simp
  qed
  then show ?thesis by (simp add: Rec_phi Iter_phi CA_phi CO_phi)
qed

theorem swap_keeps_distance_witness:
  "EditDistance_NW_Rec dna ''AC'' 2 ''GT'' 2 = EditDistance_NW_Rec dna ''GT'' 2 ''AC'' 2 \<and>
   EditDistance_NW_Iter dna ''AC'' 2 ''GT'' 2 = EditDistance_NW_Iter dna ''GT'' 2 ''AC'' 2 \<and>
   EditDistance_NW_Iter_CA dna ''AC'' 2 ''GT'' 2 = EditDistance_NW_Iter_CA dna ''GT'' 2 ''AC'' 2 \<and>
   EditDistance_NW_Iter_CO dna ''AC'' 2 ''GT'' 2 = EditDistance_NW_Iter_CO dna ''GT'' 2 ''AC'' 2 \<and>
   EditDistance_NW_Iter_CA dna ''NC'' 2 ''A'' 1 = EditDistance_NW_Iter_CA dna ''A'' 1 ''NC'' 2"
proof -
  have "charge_symmetric dna (seg ''AC'' 0 2) (seg ''GT'' 0 2)" by code_simp
  then show ?thesis
    using swap_keeps_distance[of 2 2 dna "''AC''" "''GT''"]
      swap_keeps_distance[of 2 1 dna "''NC''" "''A''"] by simp
qed

theorem swap_counterexample:
  "engines_return dna ''NC'' 2 ''AC'' 2 2 \<and> engines_return dna ''AC'' 2 ''NC'' 2 1"
  unfolding engines_return_def by code_simp










section \<open>The history of the stores of the memoized recursion\<close>













text \<open>
  Claim C8. The blocked and the cache-oblivious engine do not test the
  allocation of \<^verbatim>\<open>Z_row\<close>. When it fails and that of \<^verbatim>\<open>Y_col\<close> succeeds,
  \<^verbatim>\<open>EditDistance_NW_Iter_CA\<close> never ends with the failure exit: it returns a
  distance on two empty sequences and accesses the missing buffer on the pair
  of one-symbol sequences; \<^verbatim>\<open>EditDistance_NW_Iter_CO\<close> accesses the missing
  buffer on every input. A failed allocation of \<^verbatim>\<open>Y_col\<close> or of the memo
  table ends with the failure exit.
\<close>

theorem Z_row_allocation_unchecked:
  "EditDistance_NW_Iter_CA_alloc e True False A lengthA B lengthB \<noteq> Exit_Failure \<and>
   EditDistance_NW_Iter_CO_alloc e True False A lengthA B lengthB = Null_Access \<and>
   EditDistance_NW_Iter_CA_alloc dna True False '''' 0 '''' 0 = Return 0 \<and>
   EditDistance_NW_Iter_CA_alloc dna True False ''A'' 1 ''A'' 1 = Null_Access \<and>
   EditDistance_NW_Iter_CA_alloc e False Z_row_got A lengthA B lengthB = Exit_Failure \<and>
   EditDistance_NW_Iter_CO_alloc e False Z_row_got A lengthA B lengthB = Exit_Failure \<and>
   EditDistance_NW_Iter_alloc e False A lengthA B lengthB = Exit_Failure \<and>
   EditDistance_NW_Rec_alloc e False row_got A lengthA B lengthB = Exit_Failure \<and>
   EditDistance_NW_Rec_alloc e True (\<lambda>i. False) A lengthA B lengthB = Exit_Failure"
proof -
  have "EditDistance_NW_Iter_CA_alloc dna True False '''' 0 '''' 0 = Return 0"
    "EditDistance_NW_Iter_CA_alloc dna True False ''A'' 1 ''A'' 1 = Null_Access"
    by code_simp+
  moreover have "EditDistance_NW_Iter_CA_alloc e True False A lengthA B lengthB \<noteq> Exit_Failure"
    "EditDistance_NW_Iter_CA_alloc e False Z_row_got A lengthA B lengthB = Exit_Failure"
    by (simp_all add: EditDistance_NW_Iter_CA_alloc_def Let_def)
  moreover have "EditDistance_NW_Iter_CO_alloc e True False A lengthA B lengthB = Null_Access"
    "EditDistance_NW_Iter_CO_alloc e False Z_row_got A lengthA B lengthB = Exit_Failure"
    "EditDistance_NW_Iter_alloc e False A lengthA B lengthB = Exit_Failure"
    by (simp_all add: EditDistance_NW_Iter_CO_alloc_def EditDistance_NW_Iter_alloc_def)
  moreover have "EditDistance_NW_Rec_alloc e False row_got A lengthA B lengthB = Exit_Failure"
    "EditDistance_NW_Rec_alloc e True (\<lambda>i. False) A lengthA B lengthB = Exit_Failure"
    by (auto simp add: EditDistance_NW_Rec_alloc_def Let_def list_all_iff)
  ultimately show ?thesis by simp
qed

end
